theory Spec2Isabelle
  imports Complex_Main "HOL-Library.Multiset"
begin

section \<open>The chess bot of \<open>Chess Game/Chess_Bot.py\<close>\<close>

text \<open>
  The bot (class \<open>ChessBot\<close>) is a depth-limited minimax search with alpha-beta pruning,
  a static evaluator, a move orderer, an opening book and an iterative-deepening driver.
  It consumes a chess rules library through a narrow interface; the library is not part
  of the repository, so every library call is a field of the record \<open>rules\<close> below and
  the position type \<open>'b\<close> stays opaque.  What the bot itself computes is translated
  function by function, with the names of the source.
\<close>

subsection \<open>Data of the rules library\<close>

text \<open>
  Piece kinds, pieces and moves as the library exposes them.  A colour is a boolean
  (\<open>chess.WHITE = True\<close>, \<open>chess.BLACK = False\<close>), a square is a number \<open>0 .. 63\<close>
  (\<open>a1 = 0\<close>, \<open>h8 = 63\<close>).
\<close>

datatype piece_type = PAWN | KNIGHT | BISHOP | ROOK | QUEEN | KING

datatype piece = Piece (piece_type: piece_type) (color: bool)

datatype move = Move (from_square: nat) (to_square: nat) (promotion: "piece_type option")

abbreviation (input) WHITE :: bool where "WHITE \<equiv> True"

abbreviation (input) BLACK :: bool where "BLACK \<equiv> False"

definition square_file :: "nat \<Rightarrow> nat" where
  "square_file sq = sq mod 8"

definition square_rank :: "nat \<Rightarrow> nat" where
  "square_rank sq = sq div 8"

definition square :: "nat \<Rightarrow> nat \<Rightarrow> nat" where
  "square file_index rank_index = rank_index * 8 + file_index"

text \<open>\<open>chess.square_mirror\<close> flips a square vertically (\<open>sq ^ 0x38\<close>).\<close>

definition square_mirror :: "nat \<Rightarrow> nat" where
  "square_mirror sq = square (square_file sq) (7 - square_rank sq)"

text \<open>
  Truth value of an optional move in a Python condition (\<open>if opening_move:\<close>):
  \<open>None\<close> is false, and so is the library's null move (from \<open>a1\<close> to \<open>a1\<close>, no promotion).
\<close>

fun move_truthy :: "move option \<Rightarrow> bool" where
  "move_truthy None = False"
| "move_truthy (Some m) = (from_square m \<noteq> 0 \<or> to_square m \<noteq> 0 \<or> promotion m \<noteq> None)"

text \<open>
  The calls the bot makes on a \<open>chess.Board\<close>.  \<open>push\<close> and \<open>pop\<close> mutate the board in
  the source; here they return the new board.
\<close>

record 'b rules =
  legal_moves :: "'b \<Rightarrow> move list"
  push :: "'b \<Rightarrow> move \<Rightarrow> 'b"
  pop :: "'b \<Rightarrow> 'b"
  is_check :: "'b \<Rightarrow> bool"
  is_checkmate :: "'b \<Rightarrow> bool"
  is_stalemate :: "'b \<Rightarrow> bool"
  is_insufficient_material :: "'b \<Rightarrow> bool"
  is_game_over :: "'b \<Rightarrow> bool"
  is_capture :: "'b \<Rightarrow> move \<Rightarrow> bool"
  piece_at :: "'b \<Rightarrow> nat \<Rightarrow> piece option"
  turn :: "'b \<Rightarrow> bool"
  fen :: "'b \<Rightarrow> string"

text \<open>
  \<open>board.piece_map()\<close> and \<open>board.pieces(kind, colour)\<close> are views of \<open>piece_at\<close> over
  the 64 squares.
\<close>

definition piece_map :: "'b rules \<Rightarrow> 'b \<Rightarrow> (nat \<times> piece) list" where
  "piece_map R b = List.map_filter (\<lambda>sq. map_option (Pair sq) (piece_at R b sq)) [0..<64]"

definition pieces :: "'b rules \<Rightarrow> 'b \<Rightarrow> piece_type \<Rightarrow> bool \<Rightarrow> nat list" where
  "pieces R b pt c = filter (\<lambda>sq. piece_at R b sq = Some (Piece pt c)) [0..<64]"

subsection \<open>Scores\<close>

text \<open>
  The search works on Python floats: the evaluator returns an integer divided by
  \<open>100.0\<close> (or one of the integers \<open>-100000\<close>, \<open>0\<close>, \<open>100000\<close>) and the window starts at
  \<open>float('-inf')\<close> and \<open>float('inf')\<close>.  The scores that occur are quotients of small
  integers by 100, on which float comparison and real comparison agree, so a score is a
  real number or one of the two infinities.
\<close>

datatype score = NegInf | Fin real | PosInf

instantiation score :: linorder
begin

fun less_eq_score :: "score \<Rightarrow> score \<Rightarrow> bool" where
  "less_eq_score NegInf y = True"
| "less_eq_score (Fin x) NegInf = False"
| "less_eq_score (Fin x) (Fin y) = (x \<le> y)"
| "less_eq_score (Fin x) PosInf = True"
| "less_eq_score PosInf NegInf = False"
| "less_eq_score PosInf (Fin y) = False"
| "less_eq_score PosInf PosInf = True"

definition less_score :: "score \<Rightarrow> score \<Rightarrow> bool" where
  "less_score x y = (x \<le> y \<and> \<not> y \<le> x)"

instance
proof
  fix x y z :: score
  show "(x < y) = (x \<le> y \<and> \<not> y \<le> x)"
    by (simp add: less_score_def)
  show "x \<le> x"
    by (cases x) simp_all
  show "x \<le> y \<Longrightarrow> y \<le> z \<Longrightarrow> x \<le> z"
    by (cases x; cases y; cases z) simp_all
  show "x \<le> y \<Longrightarrow> y \<le> x \<Longrightarrow> x = y"
    by (cases x; cases y) simp_all
  show "x \<le> y \<or> y \<le> x"
    by (cases x; cases y) auto
qed

end

subsection \<open>Board Evaluator\<close>

definition piece_values :: "piece_type \<Rightarrow> int" where
  "piece_values pt = (case pt of PAWN \<Rightarrow> 100 | KNIGHT \<Rightarrow> 320 | BISHOP \<Rightarrow> 330
                      | ROOK \<Rightarrow> 500 | QUEEN \<Rightarrow> 900 | KING \<Rightarrow> 20000)"

definition pawn_table :: "int list" where
  "pawn_table =
    [0,  0,  0,  0,  0,  0,  0,  0,
     50, 50, 50, 50, 50, 50, 50, 50,
     10, 10, 20, 30, 30, 20, 10, 10,
     5,  5, 10, 25, 25, 10,  5,  5,
     0,  0,  0, 20, 20,  0,  0,  0,
     5, -5,-10,  0,  0,-10, -5,  5,
     5, 10, 10,-20,-20, 10, 10,  5,
     0,  0,  0,  0,  0,  0,  0,  0]"

definition knight_table :: "int list" where
  "knight_table =
    [-50,-40,-30,-30,-30,-30,-40,-50,
     -40,-20,  0,  0,  0,  0,-20,-40,
     -30,  0, 10, 15, 15, 10,  0,-30,
     -30,  5, 15, 20, 20, 15,  5,-30,
     -30,  0, 15, 20, 20, 15,  0,-30,
     -30,  5, 10, 15, 15, 10,  5,-30,
     -40,-20,  0,  5,  5,  0,-20,-40,
     -50,-40,-30,-30,-30,-30,-40,-50]"

definition bishop_table :: "int list" where
  "bishop_table =
    [-20,-10,-10,-10,-10,-10,-10,-20,
     -10,  0,  0,  0,  0,  0,  0,-10,
     -10,  0,  5, 10, 10,  5,  0,-10,
     -10,  5,  5, 10, 10,  5,  5,-10,
     -10,  0, 10, 10, 10, 10,  0,-10,
     -10, 10, 10, 10, 10, 10, 10,-10,
     -10,  5,  0,  0,  0,  0,  5,-10,
     -20,-10,-10,-10,-10,-10,-10,-20]"

text \<open>Python's \<open>int(x)\<close> on a float truncates towards zero.\<close>

definition py_int :: "real \<Rightarrow> int" where
  "py_int x = (if 0 \<le> x then \<lfloor>x\<rfloor> else \<lceil>x\<rceil>)"

definition get_positional_bonus :: "piece \<Rightarrow> nat \<Rightarrow> int" where
  "get_positional_bonus p square0 =
    (let sq = (if color p = BLACK then square_mirror square0 else square0) in
     case piece_type p of
       PAWN \<Rightarrow> pawn_table ! sq
     | KNIGHT \<Rightarrow> knight_table ! sq
     | BISHOP \<Rightarrow> bishop_table ! sq
     | ROOK \<Rightarrow> (let file = square_file sq in if file \<in> set [2, 3, 4, 5] then 10 else 0)
     | QUEEN \<Rightarrow>
         (let file = square_file sq; rank = square_rank sq;
              center_distance = \<bar>3.5 - real file\<bar> + \<bar>3.5 - real rank\<bar>
          in py_int ((8 - center_distance) * 5))
     | KING \<Rightarrow> 0)"

text \<open>
  The two pawn loops of \<open>evaluate_pawn_structure_simple\<close>.  The flag \<open>is_passed\<close> of the
  source stays true exactly when no scanned square holds an enemy pawn; the \<open>break\<close>s
  only stop the scan early.
\<close>

definition white_pawn_is_passed :: "'b rules \<Rightarrow> 'b \<Rightarrow> nat \<Rightarrow> bool" where
  "white_pawn_is_passed R b pawn =
    (let file = square_file pawn; rank = square_rank pawn in
     list_all (\<lambda>f. list_all (\<lambda>r. piece_at R b (square f r) \<noteq> Some (Piece PAWN BLACK))
                      [rank + 1..<8])
       [max 0 (file - 1), file, min 7 (file + 1)])"

definition black_pawn_is_passed :: "'b rules \<Rightarrow> 'b \<Rightarrow> nat \<Rightarrow> bool" where
  "black_pawn_is_passed R b pawn =
    (let file = square_file pawn; rank = square_rank pawn in
     list_all (\<lambda>f. list_all (\<lambda>r. piece_at R b (square f r) \<noteq> Some (Piece PAWN WHITE))
                      [0..<rank])
       [max 0 (file - 1), file, min 7 (file + 1)])"

definition evaluate_pawn_structure_simple :: "'b rules \<Rightarrow> 'b \<Rightarrow> int" where
  "evaluate_pawn_structure_simple R b =
    (let score = fold (\<lambda>pawn score.
                   if white_pawn_is_passed R b pawn
                   then score + int (square_rank pawn) * 10 else score)
                 (pieces R b PAWN WHITE) 0
     in fold (\<lambda>pawn score.
                   if black_pawn_is_passed R b pawn
                   then score - (7 - int (square_rank pawn)) * 10 else score)
                 (pieces R b PAWN BLACK) score)"

text \<open>The accumulated integer score of \<open>evaluate_board\<close>, component by component.\<close>

definition material_score :: "'b rules \<Rightarrow> 'b \<Rightarrow> int" where
  "material_score R b =
    fold (\<lambda>(sq, p) score.
            let v = piece_values (piece_type p); positional_bonus = get_positional_bonus p sq
            in if color p = WHITE then score + (v + positional_bonus)
               else score - (v + positional_bonus))
      (piece_map R b) 0"

definition mobility_score :: "'b rules \<Rightarrow> 'b \<Rightarrow> int" where
  "mobility_score R b =
    (let mobility = int (length (legal_moves R b)) in
     if turn R b = WHITE then mobility * 5 else - (mobility * 5))"

definition evaluate_board :: "'b rules \<Rightarrow> 'b \<Rightarrow> score" where
  "evaluate_board R b =
    (if is_checkmate R b then (if turn R b then Fin (- 100000) else Fin 100000)
     else if is_stalemate R b \<or> is_insufficient_material R b then Fin 0
     else Fin (real_of_int (material_score R b + mobility_score R b
                             + evaluate_pawn_structure_simple R b) / 100))"

subsection \<open>Move Orderer\<close>

text \<open>
  The MVV-LVA part of a candidate's score, before the promotion and check bonuses are
  added.  The source guards the lookup of victim and aggressor with
  \<open>if victim and aggressor\<close>; when either square is empty the score stays 0.
\<close>

definition capture_score :: "'b rules \<Rightarrow> 'b \<Rightarrow> move \<Rightarrow> int" where
  "capture_score R b m =
    (if is_capture R b m then
       (case piece_at R b (to_square m) of
          None \<Rightarrow> 0
        | Some victim \<Rightarrow>
            (case piece_at R b (from_square m) of
               None \<Rightarrow> 0
             | Some aggressor \<Rightarrow>
                 piece_values (piece_type victim) - piece_values (piece_type aggressor) + 1000))
     else 0)"

text \<open>One iteration of the scoring loop: the score of the move and the board it leaves.\<close>

definition score_move :: "'b rules \<Rightarrow> 'b \<Rightarrow> move \<Rightarrow> int \<times> 'b" where
  "score_move R b m =
    (let score = capture_score R b m;
         score = (if promotion m \<noteq> None then score + 900 else score);
         b = push R b m;
         score = (if is_check R b then score + 50 else score);
         b = pop R b
     in (score, b))"

fun score_moves :: "'b rules \<Rightarrow> 'b \<Rightarrow> move list \<Rightarrow> (int \<times> move) list \<times> 'b" where
  "score_moves R b [] = ([], b)"
| "score_moves R b (m # ms) =
    (let (score, b) = score_move R b m;
         (move_scores, b) = score_moves R b ms
     in ((score, m) # move_scores, b))"

text \<open>
  \<open>move_scores.sort(reverse=True, key=lambda x: x[0])\<close>: Python's sort is stable, also
  with \<open>reverse=True\<close>, so it is the stable sort on the negated score.
\<close>

definition order_moves_fast :: "'b rules \<Rightarrow> 'b \<Rightarrow> move list \<Rightarrow> move list \<times> 'b" where
  "order_moves_fast R b moves =
    (let (move_scores, b) = score_moves R b moves
     in (map snd (sort_key (\<lambda>x. - fst x) move_scores), b))"

subsection \<open>Search Engine\<close>

text \<open>
  What a search mutates: the board it was handed, the bot's node counter, and (in the
  driver) the number of readings taken from the wall clock.
\<close>

record 'b state =
  board :: 'b
  nodes_searched :: nat
  clock_reads :: nat

text \<open>
  \<open>minimax_alpha_beta\<close> with its two \<open>for\<close> loops; a loop returns early at the \<open>break\<close>.
  The depth is a natural number: the driver calls with \<open>depth - 1\<close> for
  \<open>depth\<close> in \<open>range(1, max_depth + 1)\<close>.
\<close>

function minimax_alpha_beta ::
    "'b rules \<Rightarrow> 'b state \<Rightarrow> nat \<Rightarrow> score \<Rightarrow> score \<Rightarrow> bool \<Rightarrow> score \<times> 'b state"
  and max_loop ::
    "'b rules \<Rightarrow> 'b state \<Rightarrow> nat \<Rightarrow> move list \<Rightarrow> score \<Rightarrow> score \<Rightarrow> score \<Rightarrow> score \<times> 'b state"
  and min_loop ::
    "'b rules \<Rightarrow> 'b state \<Rightarrow> nat \<Rightarrow> move list \<Rightarrow> score \<Rightarrow> score \<Rightarrow> score \<Rightarrow> score \<times> 'b state"
where
  "minimax_alpha_beta R s depth alpha beta maximizing_player =
    (let s = s\<lparr>nodes_searched := nodes_searched s + 1\<rparr> in
     if depth = 0 then (evaluate_board R (board s), s)
     else if is_game_over R (board s) then
       (if is_checkmate R (board s)
        then (if maximizing_player then Fin (- 100000) else Fin 100000, s)
        else (Fin 0, s))
     else
       let legal = legal_moves R (board s);
           (legal, b) = order_moves_fast R (board s) legal;
           s = s\<lparr>board := b\<rparr>
       in if maximizing_player then max_loop R s (depth - 1) legal NegInf alpha beta
          else min_loop R s (depth - 1) legal PosInf alpha beta)"
| "max_loop R s d [] max_eval alpha beta = (max_eval, s)"
| "max_loop R s d (m # ms) max_eval alpha beta =
    (let s = s\<lparr>board := push R (board s) m\<rparr>;
         (eval_score, s) = minimax_alpha_beta R s d alpha beta False;
         s = s\<lparr>board := pop R (board s)\<rparr>;
         max_eval = max max_eval eval_score;
         alpha = max alpha eval_score
     in if beta \<le> alpha then (max_eval, s)
        else max_loop R s d ms max_eval alpha beta)"
| "min_loop R s d [] min_eval alpha beta = (min_eval, s)"
| "min_loop R s d (m # ms) min_eval alpha beta =
    (let s = s\<lparr>board := push R (board s) m\<rparr>;
         (eval_score, s) = minimax_alpha_beta R s d alpha beta True;
         s = s\<lparr>board := pop R (board s)\<rparr>;
         min_eval = min min_eval eval_score;
         beta = min beta eval_score
     in if beta \<le> alpha then (min_eval, s)
        else min_loop R s d ms min_eval alpha beta)"
  by pat_completeness auto
termination
  by (relation "inv_image (less_than <*lex*> less_than)
        (\<lambda>x. case x of
           Inl (R, s, depth, alpha, beta, mp) \<Rightarrow> (2 * depth, 0)
         | Inr (Inl (R, s, d, ms, e, alpha, beta)) \<Rightarrow> (2 * d + 1, length ms)
         | Inr (Inr (R, s, d, ms, e, alpha, beta)) \<Rightarrow> (2 * d + 1, length ms))")
    auto

subsection \<open>Opening Book\<close>

text \<open>
  Python's \<open>s.split(sep)\<close> for a one-character separator; the result is never empty.
\<close>

fun str_split :: "char \<Rightarrow> string \<Rightarrow> string list" where
  "str_split sep [] = [[]]"
| "str_split sep (c # cs) =
    (if c = sep then [] # str_split sep cs
     else (case str_split sep cs of w # ws \<Rightarrow> (c # w) # ws | [] \<Rightarrow> [[c]]))"

text \<open>
  The dictionary \<open>opening_moves\<close> of \<open>get_opening_move\<close>, with its keys as they are
  written in the source; \<open>Move.from_uci\<close> of \<open>e2e4\<close> is the move from square 12 to
  square 28, and so on.
\<close>

definition opening_moves :: "(string \<times> move list) list" where
  "opening_moves =
    [(''rnbqkbnr/pppppppp/8/8/8/8/PPPPPPPP/RNBQKBNR w KQkq - 0 1'',
        [Move 12 28 None, Move 11 27 None, Move 6 21 None]),
     (''rnbqkbnr/pppppppp/8/8/4P3/8/PPPP1PPP/RNBQKBNR b KQkq - 0 1'',
        [Move 52 36 None, Move 50 34 None, Move 52 44 None])]"

definition get_opening_move :: "'b rules \<Rightarrow> 'b \<Rightarrow> move option" where
  "get_opening_move R b =
    (let fen = hd (str_split (CHR '' '') (fen R b)) in
     case map_of opening_moves fen of
       Some moves \<Rightarrow> find (\<lambda>m. m \<in> set (legal_moves R b)) moves
     | None \<Rightarrow> None)"

subsection \<open>Move Selector\<close>

datatype py_error = IndexError

text \<open>
  \<open>time.time()\<close>: the wall clock is a sequence of readings, and each call takes the
  next one.
\<close>

definition time_time :: "(nat \<Rightarrow> real) \<Rightarrow> 'b state \<Rightarrow> real \<times> 'b state" where
  "time_time clock s = (clock (clock_reads s), s\<lparr>clock_reads := clock_reads s + 1\<rparr>)"

text \<open>\<open>best_move if best_move else legal_moves[0]\<close>\<close>

definition best_or_first :: "move option \<Rightarrow> move list \<Rightarrow> py_error + move option" where
  "best_or_first best_move legal =
    (if move_truthy best_move then Inr best_move
     else (case legal of [] \<Rightarrow> Inl IndexError | m # ms \<Rightarrow> Inr (Some m)))"

text \<open>
  The inner loop of \<open>get_best_move_fast\<close> over the root moves at one depth.  The first
  component of the result tells whether the time limit was hit (the source returns from
  the whole function there).
\<close>

fun root_moves_loop ::
    "'b rules \<Rightarrow> (nat \<Rightarrow> real) \<Rightarrow> real \<Rightarrow> real \<Rightarrow> nat \<Rightarrow> move list \<Rightarrow> move option \<Rightarrow> score
      \<Rightarrow> 'b state \<Rightarrow> bool \<times> move option \<times> score \<times> 'b state" where
  "root_moves_loop R clock start_time time_limit depth [] current_best current_best_value s =
    (False, current_best, current_best_value, s)"
| "root_moves_loop R clock start_time time_limit depth (m # ms) current_best current_best_value s =
    (let (now, s) = time_time clock s in
     if now - start_time > time_limit then (True, current_best, current_best_value, s)
     else
       let s = s\<lparr>board := push R (board s) m\<rparr>;
           (v, s) = minimax_alpha_beta R s (depth - 1) NegInf PosInf False;
           s = s\<lparr>board := pop R (board s)\<rparr>
       in if v > current_best_value
          then root_moves_loop R clock start_time time_limit depth ms (Some m) v s
          else root_moves_loop R clock start_time time_limit depth ms
                 current_best current_best_value s)"

text \<open>The outer loop over \<open>range(1, self.max_depth + 1)\<close> and the final \<open>return\<close>.\<close>

fun deepening_loop ::
    "'b rules \<Rightarrow> (nat \<Rightarrow> real) \<Rightarrow> real \<Rightarrow> real \<Rightarrow> nat list \<Rightarrow> move list \<Rightarrow> move option
      \<Rightarrow> 'b state \<Rightarrow> (py_error + move option) \<times> 'b state" where
  "deepening_loop R clock start_time time_limit [] legal best_move s =
    (best_or_first best_move legal, s)"
| "deepening_loop R clock start_time time_limit (depth # depths) legal best_move s =
    (let s = s\<lparr>nodes_searched := 0\<rparr>;
         (timed_out, current_best, current_best_value, s) =
            root_moves_loop R clock start_time time_limit depth legal None NegInf s
     in if timed_out then (best_or_first best_move legal, s)
        else
          let best_move = (if move_truthy current_best then current_best else best_move) in
          if current_best_value > Fin 5000 then (Inr current_best, s)
          else
            let (now, s) = time_time clock s in
            if now - start_time > time_limit / 2 then (best_or_first best_move legal, s)
            else deepening_loop R clock start_time time_limit depths legal best_move s)"

definition get_best_move_fast ::
    "'b rules \<Rightarrow> int \<Rightarrow> (nat \<Rightarrow> real) \<Rightarrow> 'b state \<Rightarrow> real \<Rightarrow> (py_error + move option) \<times> 'b state"
  where
  "get_best_move_fast R max_depth clock s time_limit =
    (let (start_time, s) = time_time clock s;
         legal = legal_moves R (board s)
     in if legal = [] then (Inr None, s)
        else if length legal = 1 then (Inr (Some (hd legal)), s)
        else
          let opening_move = get_opening_move R (board s) in
          if move_truthy opening_move then (Inr opening_move, s)
          else
            let (legal, b) = order_moves_fast R (board s) legal;
                s = s\<lparr>board := b\<rparr>
            in deepening_loop R clock start_time time_limit (map nat [1..max_depth])
                 legal None s)"

definition get_best_move ::
    "'b rules \<Rightarrow> int \<Rightarrow> (nat \<Rightarrow> real) \<Rightarrow> 'b state \<Rightarrow> (py_error + move option) \<times> 'b state" where
  "get_best_move R max_depth clock s = get_best_move_fast R max_depth clock s 1.5"

subsection \<open>Reference notions for the properties\<close>

text \<open>The library's \<open>pop\<close> undoes the last \<open>push\<close>.\<close>

definition pop_undoes_push :: "'b rules \<Rightarrow> bool" where
  "pop_undoes_push R = (\<forall>b m. pop R (push R b m) = b)"

text \<open>
  Exhaustive minimax without any pruning, over the tree of legal moves, to a given depth,
  with the leaf evaluation and the terminal rule of the search.
\<close>

fun minimax_exhaustive :: "'b rules \<Rightarrow> 'b \<Rightarrow> nat \<Rightarrow> bool \<Rightarrow> score" where
  "minimax_exhaustive R b 0 maximizing_player = evaluate_board R b"
| "minimax_exhaustive R b (Suc d) maximizing_player =
    (if is_game_over R b then
       (if is_checkmate R b then (if maximizing_player then Fin (- 100000) else Fin 100000)
        else Fin 0)
     else if maximizing_player
       then fold max (map (\<lambda>m. minimax_exhaustive R (push R b m) d False) (legal_moves R b)) NegInf
       else fold min (map (\<lambda>m. minimax_exhaustive R (push R b m) d True) (legal_moves R b)) PosInf)"

text \<open>The score the orderer computes for a move on a board: captures, promotion, check.\<close>

definition move_score :: "'b rules \<Rightarrow> 'b \<Rightarrow> move \<Rightarrow> int" where
  "move_score R b m = fst (score_move R b m)"

text \<open>
  A computed score and the exhaustive value agree as far as the window \<open>(a, b)\<close> can tell:
  at or below \<open>a\<close> the computed score is an upper bound, at or above \<open>b\<close> a lower bound,
  strictly inside the window it is exact.
\<close>

definition window_exact :: "score \<Rightarrow> score \<Rightarrow> score \<Rightarrow> score \<Rightarrow> bool" where
  "window_exact a b w v =
    ((v \<le> a \<longrightarrow> w \<le> v) \<and> (a < v \<and> v < b \<longrightarrow> w = v) \<and> (b \<le> v \<longrightarrow> v \<le> w))"

text \<open>An optional move that, when present, is one of the given moves.\<close>

definition legal_or_none :: "move list \<Rightarrow> move option \<Rightarrow> bool" where
  "legal_or_none L x = (case x of None \<Rightarrow> True | Some m \<Rightarrow> m \<in> set L)"

subsection \<open>Colour mirroring\<close>

text \<open>
  The colour-mirrored counterpart of a position: every piece reflected vertically
  (\<open>square_mirror\<close>) with its colour swapped, the side to move swapped.  Checkmate,
  stalemate and insufficient material are answers of the library; on the counterpart
  they are the same.
\<close>

definition mirror_piece :: "piece \<Rightarrow> piece" where
  "mirror_piece p = Piece (piece_type p) (\<not> color p)"

definition color_mirrored :: "'b rules \<Rightarrow> 'b \<Rightarrow> 'b \<Rightarrow> bool" where
  "color_mirrored R P P' =
    (list_all (\<lambda>sq. piece_at R P' sq = map_option mirror_piece (piece_at R P (square_mirror sq)))
       [0..<64]
     \<and> turn R P' = (\<not> turn R P)
     \<and> is_checkmate R P' = is_checkmate R P
     \<and> is_stalemate R P' = is_stalemate R P
     \<and> is_insufficient_material R P' = is_insufficient_material R P)"

text \<open>
  What the mobility term adds to the returned value (nothing on the three terminal
  returns), and the returned value without it.
\<close>

definition mobility_contribution :: "'b rules \<Rightarrow> 'b \<Rightarrow> real" where
  "mobility_contribution R b =
    (if is_checkmate R b \<or> is_stalemate R b \<or> is_insufficient_material R b then 0
     else real_of_int (mobility_score R b) / 100)"

definition static_part :: "'b rules \<Rightarrow> 'b \<Rightarrow> real" where
  "static_part R b =
    (if is_checkmate R b then (if turn R b then - 100000 else 100000)
     else if is_stalemate R b \<or> is_insufficient_material R b then 0
     else real_of_int (material_score R b + evaluate_pawn_structure_simple R b) / 100)"

text \<open>
  The contribution of one square to the loop over \<open>piece_map\<close> and to the two pawn loops.
\<close>

definition square_term :: "'b rules \<Rightarrow> 'b \<Rightarrow> nat \<Rightarrow> int" where
  "square_term R b sq =
    (case piece_at R b sq of
       None \<Rightarrow> 0
     | Some p \<Rightarrow>
         if color p = WHITE then piece_values (piece_type p) + get_positional_bonus p sq
         else - (piece_values (piece_type p) + get_positional_bonus p sq))"

definition white_term :: "'b rules \<Rightarrow> 'b \<Rightarrow> nat \<Rightarrow> int" where
  "white_term R b sq =
    (if piece_at R b sq = Some (Piece PAWN WHITE) \<and> white_pawn_is_passed R b sq
     then int (square_rank sq) * 10 else 0)"

definition black_term :: "'b rules \<Rightarrow> 'b \<Rightarrow> nat \<Rightarrow> int" where
  "black_term R b sq =
    (if piece_at R b sq = Some (Piece PAWN BLACK) \<and> black_pawn_is_passed R b sq
     then (7 - int (square_rank sq)) * 10 else 0)"

section \<open>Recorded positions of the rules library\<close>

text \<open>
  Concrete inputs for the properties below.  A board holds the piece placement, the side
  to move, the castling rights as the FEN prints them, the en passant square, the two
  move counters and the board before the last \<open>push\<close>.  Placement, \<open>push\<close>, \<open>pop\<close>,
  \<open>piece_at\<close>, \<open>is_capture\<close> and \<open>fen\<close> are computed.  The answers that need the rules
  of chess (\<open>legal_moves\<close>, check, checkmate, stalemate) are a table, recorded for

    \<^item> the starting position, and every position one move below it;
    \<^item> \<open>4k3/8/5p2/3pP3/8/8/8/4K3 w - d6 0 2\<close>, where White has an ordinary capture
      (e5 takes f6) and an en passant capture (e5 takes d5, landing on d6);
    \<^item> its colour-mirrored counterpart \<open>4k3/8/8/8/3Pp3/5P2/8/4K3 b - d3 0 2\<close>;
    \<^item> the final position of the fool's mate, White mated;
    \<^item> \<open>R5k1/5ppp/8/8/8/8/8/4K3 b - - 0 1\<close>, Black mated;
    \<^item> \<open>7k/5Q2/6K1/8/8/8/8/8 b - - 0 1\<close>, a stalemate;
    \<^item> \<open>8/8/8/8/8/5k2/8/r6K w - - 0 1\<close>, where White has a single legal move.

  Legal moves are listed in the order in which the library generates them.  A position
  outside the table has no recorded move and no recorded check: it is a leaf of the tree
  that the table spans.
\<close>

datatype cboard = CBoard (placement: "(nat \<times> piece) list") (to_move: bool) (castling: string)
  (ep_square: "nat option") (halfmove_clock: nat) (fullmove_number: nat) (undo: "cboard option")

definition cb_piece_at :: "cboard \<Rightarrow> nat \<Rightarrow> piece option" where
  "cb_piece_at b sq = map_of (placement b) sq"

definition cb_is_en_passant :: "cboard \<Rightarrow> move \<Rightarrow> bool" where
  "cb_is_en_passant b m =
    (ep_square b = Some (to_square m)
     \<and> map_option piece_type (cb_piece_at b (from_square m)) = Some PAWN
     \<and> (to_square m - from_square m \<in> set [7, 9] \<or> from_square m - to_square m \<in> set [7, 9])
     \<and> cb_piece_at b (to_square m) = None)"

definition cb_is_capture :: "cboard \<Rightarrow> move \<Rightarrow> bool" where
  "cb_is_capture b m =
    (map_option color (cb_piece_at b (to_square m)) = Some (\<not> to_move b) \<or> cb_is_en_passant b m)"

definition cb_push :: "cboard \<Rightarrow> move \<Rightarrow> cboard" where
  "cb_push b m =
    (let src = from_square m; dst = to_square m;
         moved = cb_piece_at b src;
         is_pawn = (map_option piece_type moved = Some PAWN);
         captured_sq = (if cb_is_en_passant b m then square (square_file dst) (square_rank src) else dst);
         rest = filter (\<lambda>(sq, p). sq \<noteq> src \<and> sq \<noteq> dst \<and> sq \<noteq> captured_sq) (placement b);
         placed = (case moved of None \<Rightarrow> []
                   | Some p \<Rightarrow> [(dst, case promotion m of None \<Rightarrow> p | Some pt \<Rightarrow> Piece pt (color p))]);
         touched = (\<lambda>sq. src = sq \<or> dst = sq);
         rights = filter (\<lambda>c. \<not> ((c = CHR ''K'' \<and> (touched 4 \<or> touched 7))
                               \<or> (c = CHR ''Q'' \<and> (touched 4 \<or> touched 0))
                               \<or> (c = CHR ''k'' \<and> (touched 60 \<or> touched 63))
                               \<or> (c = CHR ''q'' \<and> (touched 60 \<or> touched 56)))) (castling b)
     in CBoard (placed @ rest) (\<not> to_move b) rights
          (if is_pawn \<and> (dst = src + 16 \<or> src = dst + 16) then Some ((src + dst) div 2) else None)
          (if is_pawn \<or> cb_is_capture b m then 0 else halfmove_clock b + 1)
          (if to_move b then fullmove_number b else fullmove_number b + 1)
          (Some b))"

definition cb_pop :: "cboard \<Rightarrow> cboard" where
  "cb_pop b = (case undo b of Some previous \<Rightarrow> previous | None \<Rightarrow> b)"

definition start_placement :: "(nat \<times> piece) list" where
  "start_placement =
    map (\<lambda>(sq, pt). (sq, Piece pt WHITE))
      (zip [0..<8] [ROOK, KNIGHT, BISHOP, QUEEN, KING, BISHOP, KNIGHT, ROOK])
    @ map (\<lambda>sq. (sq, Piece PAWN WHITE)) [8..<16]
    @ map (\<lambda>sq. (sq, Piece PAWN BLACK)) [48..<56]
    @ map (\<lambda>(sq, pt). (sq, Piece pt BLACK))
      (zip [56..<64] [ROOK, KNIGHT, BISHOP, QUEEN, KING, BISHOP, KNIGHT, ROOK])"

definition start_board :: cboard where
  "start_board = CBoard start_placement WHITE ''KQkq'' None 0 1 None"


definition piece_symbol :: "piece \<Rightarrow> char" where
  "piece_symbol p =
    (case (piece_type p, color p) of
       (PAWN, True) \<Rightarrow> CHR ''P'' | (KNIGHT, True) \<Rightarrow> CHR ''N'' | (BISHOP, True) \<Rightarrow> CHR ''B''
     | (ROOK, True) \<Rightarrow> CHR ''R'' | (QUEEN, True) \<Rightarrow> CHR ''Q'' | (KING, True) \<Rightarrow> CHR ''K''
     | (PAWN, False) \<Rightarrow> CHR ''p'' | (KNIGHT, False) \<Rightarrow> CHR ''n'' | (BISHOP, False) \<Rightarrow> CHR ''b''
     | (ROOK, False) \<Rightarrow> CHR ''r'' | (QUEEN, False) \<Rightarrow> CHR ''q'' | (KING, False) \<Rightarrow> CHR ''k'')"

fun decimal :: "nat \<Rightarrow> string" where
  "decimal n = (if n < 10 then [''0123456789'' ! n]
                else decimal (n div 10) @ [''0123456789'' ! (n mod 10)])"

declare decimal.simps [simp del]

fun fen_row :: "piece option list \<Rightarrow> nat \<Rightarrow> string" where
  "fen_row [] empties = (if empties = 0 then [] else decimal empties)"
| "fen_row (None # row) empties = fen_row row (empties + 1)"
| "fen_row (Some p # row) empties =
    (if empties = 0 then [] else decimal empties) @ piece_symbol p # fen_row row 0"

definition board_fen :: "cboard \<Rightarrow> string" where
  "board_fen b =
    concat (map (\<lambda>r. fen_row (map (\<lambda>f. cb_piece_at b (square f r)) [0..<8]) 0
                        @ (if r = 0 then [] else ''/''))
              [7, 6, 5, 4, 3, 2, 1, 0])"

definition square_name :: "nat \<Rightarrow> string" where
  "square_name sq = [''abcdefgh'' ! square_file sq, ''12345678'' ! square_rank sq]"

definition white_first_moves :: "move list" where
  "white_first_moves =
    [Move 6 23 None, Move 6 21 None, Move 1 18 None, Move 1 16 None,
     Move 15 23 None, Move 14 22 None, Move 13 21 None, Move 12 20 None,
     Move 11 19 None, Move 10 18 None, Move 9 17 None, Move 8 16 None,
     Move 15 31 None, Move 14 30 None, Move 13 29 None, Move 12 28 None,
     Move 11 27 None, Move 10 26 None, Move 9 25 None, Move 8 24 None]"

definition black_replies :: "move list" where
  "black_replies =
    [Move 62 47 None, Move 62 45 None, Move 57 42 None, Move 57 40 None,
     Move 55 47 None, Move 54 46 None, Move 53 45 None, Move 52 44 None,
     Move 51 43 None, Move 50 42 None, Move 49 41 None, Move 48 40 None,
     Move 55 39 None, Move 54 38 None, Move 53 37 None, Move 52 36 None,
     Move 51 35 None, Move 50 34 None, Move 49 33 None, Move 48 32 None]"

definition en_passant_board :: cboard where
  "en_passant_board =
    CBoard [(4, Piece KING WHITE), (36, Piece PAWN WHITE), (35, Piece PAWN BLACK),
            (45, Piece PAWN BLACK), (60, Piece KING BLACK)] WHITE [] (Some 43) 0 2 None"

definition en_passant_moves :: "move list" where
  "en_passant_moves =
    [Move 4 13 None, Move 4 12 None, Move 4 11 None, Move 4 5 None, Move 4 3 None,
     Move 36 45 None, Move 36 44 None, Move 36 43 None]"

definition mirrored_en_passant_board :: cboard where
  "mirrored_en_passant_board =
    CBoard [(60, Piece KING BLACK), (28, Piece PAWN BLACK), (27, Piece PAWN WHITE),
            (21, Piece PAWN WHITE), (4, Piece KING WHITE)] BLACK [] (Some 19) 0 2 None"

definition mirrored_en_passant_moves :: "move list" where
  "mirrored_en_passant_moves =
    [Move 60 61 None, Move 60 59 None, Move 60 53 None, Move 60 52 None, Move 60 51 None,
     Move 28 21 None, Move 28 20 None, Move 28 19 None]"

definition fools_mate_board :: cboard where
  "fools_mate_board =
    CBoard ([(0, Piece ROOK WHITE), (1, Piece KNIGHT WHITE), (2, Piece BISHOP WHITE),
             (3, Piece QUEEN WHITE), (4, Piece KING WHITE), (5, Piece BISHOP WHITE),
             (6, Piece KNIGHT WHITE), (7, Piece ROOK WHITE)]
            @ map (\<lambda>sq. (sq, Piece PAWN WHITE)) [8, 9, 10, 11, 12, 15, 21, 30]
            @ [(31, Piece QUEEN BLACK), (36, Piece PAWN BLACK)]
            @ map (\<lambda>sq. (sq, Piece PAWN BLACK)) [48, 49, 50, 51, 53, 54, 55]
            @ [(56, Piece ROOK BLACK), (57, Piece KNIGHT BLACK), (58, Piece BISHOP BLACK),
               (60, Piece KING BLACK), (61, Piece BISHOP BLACK), (62, Piece KNIGHT BLACK),
               (63, Piece ROOK BLACK)])
      WHITE ''KQkq'' None 1 3 None"

definition stalemate_board :: cboard where
  "stalemate_board =
    CBoard [(46, Piece KING WHITE), (53, Piece QUEEN WHITE), (63, Piece KING BLACK)]
      BLACK [] None 0 1 None"

definition back_rank_mate_board :: cboard where
  "back_rank_mate_board =
    CBoard [(4, Piece KING WHITE), (56, Piece ROOK WHITE), (53, Piece PAWN BLACK),
            (54, Piece PAWN BLACK), (55, Piece PAWN BLACK), (62, Piece KING BLACK)]
      BLACK [] None 0 1 None"

definition single_move_board :: cboard where
  "single_move_board =
    CBoard [(0, Piece ROOK BLACK), (7, Piece KING WHITE), (21, Piece KING BLACK)]
      WHITE [] None 0 1 None"

definition cb_legal_moves :: "cboard \<Rightarrow> move list" where
  "cb_legal_moves b =
    (if placement b = start_placement \<and> to_move b then white_first_moves
     else if \<not> to_move b \<and> map_option placement (undo b) = Some start_placement then black_replies
     else if placement b = placement en_passant_board \<and> to_move b
             \<and> ep_square b = Some 43 then en_passant_moves
     else if placement b = placement mirrored_en_passant_board \<and> \<not> to_move b
             \<and> ep_square b = Some 19 then mirrored_en_passant_moves
     else if placement b = placement single_move_board \<and> to_move b then [Move 7 15 None]
     else [])"

definition cb_is_checkmate :: "cboard \<Rightarrow> bool" where
  "cb_is_checkmate b =
    ((placement b = placement fools_mate_board \<and> to_move b)
     \<or> (placement b = placement back_rank_mate_board \<and> \<not> to_move b))"

definition cb_is_check :: "cboard \<Rightarrow> bool" where
  "cb_is_check b =
    (cb_is_checkmate b \<or> (placement b = placement single_move_board \<and> to_move b))"

definition cb_is_stalemate :: "cboard \<Rightarrow> bool" where
  "cb_is_stalemate b = (placement b = placement stalemate_board \<and> \<not> to_move b)"

definition cb_is_insufficient_material :: "cboard \<Rightarrow> bool" where
  "cb_is_insufficient_material b = list_all (\<lambda>(sq, p). piece_type p = KING) (placement b)"

definition cb_fen :: "cboard \<Rightarrow> string" where
  "cb_fen b =
    board_fen b @ '' '' @ (if to_move b then ''w'' else ''b'') @ '' ''
    @ (if castling b = [] then ''-'' else castling b) @ '' ''
    @ (case ep_square b of
         None \<Rightarrow> ''-''
       | Some sq \<Rightarrow> if list_ex (cb_is_en_passant b) (cb_legal_moves b) then square_name sq
                    else ''-'')
    @ '' '' @ decimal (halfmove_clock b) @ '' '' @ decimal (fullmove_number b)"

definition recorded_rules :: "cboard rules" where
  "recorded_rules =
    \<lparr>legal_moves = cb_legal_moves, push = cb_push, pop = cb_pop,
     is_check = cb_is_check, is_checkmate = cb_is_checkmate,
     is_stalemate = cb_is_stalemate, is_insufficient_material = cb_is_insufficient_material,
     is_game_over = (\<lambda>b. cb_is_checkmate b \<or> cb_is_stalemate b \<or> cb_is_insufficient_material b),
     is_capture = cb_is_capture, piece_at = cb_piece_at, turn = to_move, fen = cb_fen\<rparr>"

section \<open>Properties\<close>

subsection \<open>Unfolding the search\<close>

declare minimax_alpha_beta.simps(1) [simp del]

lemma minimax_alpha_beta_0:
  "minimax_alpha_beta R s 0 alpha beta mp =
     (evaluate_board R (board s), s\<lparr>nodes_searched := nodes_searched s + 1\<rparr>)"
  by (simp add: minimax_alpha_beta.simps(1))

lemma minimax_alpha_beta_Suc:
  "minimax_alpha_beta R s (Suc d) alpha beta mp =
    (let s = s\<lparr>nodes_searched := nodes_searched s + 1\<rparr> in
     if is_game_over R (board s) then
       (if is_checkmate R (board s)
        then (if mp then Fin (- 100000) else Fin 100000, s)
        else (Fin 0, s))
     else
       let legal = legal_moves R (board s);
           (legal, b) = order_moves_fast R (board s) legal;
           s = s\<lparr>board := b\<rparr>
       in if mp then max_loop R s d legal NegInf alpha beta
          else min_loop R s d legal PosInf alpha beta)"
  by (subst minimax_alpha_beta.simps(1)) (simp add: Let_def split_beta)

lemma score_move_law:
  "pop_undoes_push R \<Longrightarrow> score_move R b m = (move_score R b m, b)"
  by (simp add: move_score_def score_move_def pop_undoes_push_def Let_def)

lemma score_moves_law:
  "pop_undoes_push R \<Longrightarrow> score_moves R b ms = (map (\<lambda>m. (move_score R b m, m)) ms, b)"
  by (induction ms) (simp_all add: score_move_law)

lemma order_moves_fast_law:
  "pop_undoes_push R \<Longrightarrow>
     order_moves_fast R b ms =
       (map snd (sort_key (\<lambda>x. - fst x) (map (\<lambda>m. (move_score R b m, m)) ms)), b)"
  by (simp add: order_moves_fast_def score_moves_law)

lemma snd_score_moves: "map snd (fst (score_moves R b ms)) = ms"
  by (induction ms arbitrary: b) (simp_all add: split_beta Let_def)

lemma mset_order_moves_fast: "mset (fst (order_moves_fast R b ms)) = mset ms"
proof -
  have "mset (map snd (sort_key (\<lambda>x. - fst x) (fst (score_moves R b ms))))
      = mset (map snd (fst (score_moves R b ms)))"
    by (simp only: mset_map mset_sort)
  then show ?thesis
    by (simp add: order_moves_fast_def split_beta snd_score_moves)
qed

lemma max_loop_frame:
  assumes law: "pop_undoes_push R"
    and IH: "\<And>s alpha beta mp. board (snd (minimax_alpha_beta R s d alpha beta mp)) = board s
               \<and> clock_reads (snd (minimax_alpha_beta R s d alpha beta mp)) = clock_reads s"
  shows "board (snd (max_loop R s d ms e alpha beta)) = board s
     \<and> clock_reads (snd (max_loop R s d ms e alpha beta)) = clock_reads s"
proof (induction ms arbitrary: s e alpha)
  case Nil
  show ?case by simp
next
  case (Cons m ms)
  from law have pp: "\<And>b m. pop R (push R b m) = b" by (simp add: pop_undoes_push_def)
  show ?case
    by (simp add: Let_def split_beta Cons.IH IH pp)
qed

lemma min_loop_frame:
  assumes law: "pop_undoes_push R"
    and IH: "\<And>s alpha beta mp. board (snd (minimax_alpha_beta R s d alpha beta mp)) = board s
               \<and> clock_reads (snd (minimax_alpha_beta R s d alpha beta mp)) = clock_reads s"
  shows "board (snd (min_loop R s d ms e alpha beta)) = board s
     \<and> clock_reads (snd (min_loop R s d ms e alpha beta)) = clock_reads s"
proof (induction ms arbitrary: s e beta)
  case Nil
  show ?case by simp
next
  case (Cons m ms)
  from law have pp: "\<And>b m. pop R (push R b m) = b" by (simp add: pop_undoes_push_def)
  show ?case
    by (simp add: Let_def split_beta Cons.IH IH pp)
qed

lemma minimax_alpha_beta_frame:
  assumes law: "pop_undoes_push R"
  shows "board (snd (minimax_alpha_beta R s d alpha beta mp)) = board s
     \<and> clock_reads (snd (minimax_alpha_beta R s d alpha beta mp)) = clock_reads s"
proof (induction d arbitrary: s alpha beta mp)
  case 0
  show ?case by (simp add: minimax_alpha_beta_0)
next
  case (Suc d)
  show ?case
    by (simp add: minimax_alpha_beta_Suc Let_def order_moves_fast_law [OF law]
          max_loop_frame [OF law Suc.IH] min_loop_frame [OF law Suc.IH])
qed

text \<open>
  Claim C4.  When the orderer or the search returns, at any depth and also after a
  cut-off, the position is the one it was called with, and so is its serialisation.
  The library is assumed to undo a pushed move on \<open>pop\<close>.
\<close>

theorem search_restores_position:
  assumes "pop_undoes_push R"
  shows "snd (order_moves_fast R b ms) = b
     \<and> board (snd (minimax_alpha_beta R s d alpha beta mp)) = board s
     \<and> fen R (board (snd (minimax_alpha_beta R s d alpha beta mp))) = fen R (board s)"
  by (simp add: order_moves_fast_law [OF assms] minimax_alpha_beta_frame [OF assms])

subsection \<open>Alpha-beta against exhaustive minimax\<close>

lemma fold_max_ge: "(a::score) \<le> fold max xs a"
proof (induction xs arbitrary: a)
  case Nil show ?case by simp
next
  case (Cons x xs)
  have "a \<le> max x a" by simp
  also have "\<dots> \<le> fold max xs (max x a)" by (rule Cons.IH)
  finally show ?case by simp
qed

lemma fold_min_le: "fold min xs (a::score) \<le> a"
proof (induction xs arbitrary: a)
  case Nil show ?case by simp
next
  case (Cons x xs)
  have "fold min xs (min x a) \<le> min x a" by (rule Cons.IH)
  also have "\<dots> \<le> a" by simp
  finally show ?case by simp
qed

lemma max_loop_ge:
  "e \<le> fst (max_loop R s d ms e alpha beta)"
proof (induction ms arbitrary: s e alpha)
  case Nil show ?case by simp
next
  case (Cons m ms)
  show ?case
    by (auto simp: Let_def split_beta intro: order_trans [OF max.cobounded1 Cons.IH])
qed

lemma min_loop_le:
  "fst (min_loop R s d ms e alpha beta) \<le> e"
proof (induction ms arbitrary: s e beta)
  case Nil show ?case by simp
next
  case (Cons m ms)
  show ?case
    by (auto simp: Let_def split_beta intro: order_trans [OF Cons.IH min.cobounded1])
qed

lemma max_cut:
  fixes alpha beta :: score
  assumes "window_exact alpha beta te ev" "beta \<le> max alpha ev"
    "tw \<le> e" "e \<le> alpha" "alpha < beta" "max tw te \<le> W"
  shows "window_exact alpha beta W (max e ev)"
  using assms unfolding window_exact_def max_def by (auto split: if_splits)

lemma max_continue:
  fixes alpha beta :: score
  assumes "window_exact alpha beta te ev" "\<not> beta \<le> max alpha ev"
    "tw \<le> e" "e \<le> alpha" "alpha < beta" "max tw te \<le> W"
    "window_exact (max alpha ev) beta W v" "max e ev \<le> v"
  shows "window_exact alpha beta W v"
  using assms unfolding window_exact_def max_def by (auto split: if_splits)

lemma max_continue_pre:
  fixes alpha beta :: score
  assumes "window_exact alpha beta te ev" "\<not> beta \<le> max alpha ev"
    "tw \<le> e" "e \<le> alpha" "alpha < beta"
  shows "max tw te \<le> max e ev \<and> max e ev \<le> max alpha ev \<and> max alpha ev < beta"
  using assms unfolding window_exact_def max_def by (auto split: if_splits)

lemma min_cut:
  fixes alpha beta :: score
  assumes "window_exact alpha beta te ev" "min beta ev \<le> alpha"
    "e \<le> tw" "beta \<le> e" "alpha < beta" "W \<le> min tw te"
  shows "window_exact alpha beta W (min e ev)"
  using assms unfolding window_exact_def min_def by (auto split: if_splits)

lemma min_continue:
  fixes alpha beta :: score
  assumes "window_exact alpha beta te ev" "\<not> min beta ev \<le> alpha"
    "e \<le> tw" "beta \<le> e" "alpha < beta" "W \<le> min tw te"
    "window_exact alpha (min beta ev) W v" "v \<le> min e ev"
  shows "window_exact alpha beta W v"
  using assms unfolding window_exact_def min_def by (auto split: if_splits)

lemma min_continue_pre:
  fixes alpha beta :: score
  assumes "window_exact alpha beta te ev" "\<not> min beta ev \<le> alpha"
    "e \<le> tw" "beta \<le> e" "alpha < beta"
  shows "min e ev \<le> min tw te \<and> min beta ev \<le> min e ev \<and> alpha < min beta ev"
  using assms unfolding window_exact_def min_def by (auto split: if_splits)

lemma max_loop_window:
  assumes law: "pop_undoes_push R"
    and IH: "\<And>s alpha beta mp. alpha < beta \<Longrightarrow>
               window_exact alpha beta (minimax_exhaustive R (board s) d mp)
                 (fst (minimax_alpha_beta R s d alpha beta mp))"
  shows "tw \<le> e \<Longrightarrow> e \<le> alpha \<Longrightarrow> alpha < beta \<Longrightarrow>
         window_exact alpha beta
           (fold max (map (\<lambda>m. minimax_exhaustive R (push R (board s) m) d False) ms) tw)
           (fst (max_loop R s d ms e alpha beta))"
proof (induction ms arbitrary: s e alpha tw)
  case Nil
  then show ?case by (auto simp: window_exact_def)
next
  case (Cons m ms)
  from law have pp: "\<And>b m. pop R (push R b m) = b" by (simp add: pop_undoes_push_def)
  define s1 where "s1 = s\<lparr>board := push R (board s) m\<rparr>"
  define r where "r = minimax_alpha_beta R s1 d alpha beta False"
  define ev where "ev = fst r"
  define te where "te = minimax_exhaustive R (push R (board s) m) d False"
  define s3 where "s3 = (snd r)\<lparr>board := pop R (board (snd r))\<rparr>"
  define W where "W = fold max (map (\<lambda>m. minimax_exhaustive R (push R (board s) m) d False) ms) (max tw te)"
  define v where "v = fst (max_loop R s3 d ms (max e ev) (max alpha ev) beta)"
  have b3: "board s3 = board s"
    using minimax_alpha_beta_frame [OF law, of s1 d alpha beta False]
    by (simp add: pp s3_def r_def s1_def)
  have we: "window_exact alpha beta te ev"
    using IH [OF Cons.prems(3), of s1 False] by (simp add: te_def ev_def r_def s1_def)
  have Wge: "max tw te \<le> W" unfolding W_def by (rule fold_max_ge)
  have fm: "fold max (map (\<lambda>m. minimax_exhaustive R (push R (board s) m) d False) (m # ms)) tw = W"
    by (simp add: W_def te_def max.commute)
  have unf: "max_loop R s d (m # ms) e alpha beta =
      (if beta \<le> max alpha ev then (max e ev, s3)
       else max_loop R s3 d ms (max e ev) (max alpha ev) beta)"
    by (simp add: Let_def split_beta s3_def ev_def r_def s1_def)
  show ?case
  proof (cases "beta \<le> max alpha ev")
    case True
    have "window_exact alpha beta W (max e ev)"
      by (rule max_cut [OF we True Cons.prems Wge])
    then show ?thesis unfolding fm unf using True by simp
  next
    case False
    note pre = max_continue_pre [OF we False Cons.prems]
    have rec: "window_exact (max alpha ev) beta W v"
      using Cons.IH [of "max tw te" "max e ev" "max alpha ev" s3] pre
      by (simp add: b3 W_def v_def)
    have vge: "max e ev \<le> v" unfolding v_def by (rule max_loop_ge)
    have "window_exact alpha beta W v"
      by (rule max_continue [OF we False Cons.prems Wge rec vge])
    then show ?thesis unfolding fm unf using False by (simp add: v_def)
  qed
qed

lemma min_loop_window:
  assumes law: "pop_undoes_push R"
    and IH: "\<And>s alpha beta mp. alpha < beta \<Longrightarrow>
               window_exact alpha beta (minimax_exhaustive R (board s) d mp)
                 (fst (minimax_alpha_beta R s d alpha beta mp))"
  shows "e \<le> tw \<Longrightarrow> beta \<le> e \<Longrightarrow> alpha < beta \<Longrightarrow>
         window_exact alpha beta
           (fold min (map (\<lambda>m. minimax_exhaustive R (push R (board s) m) d True) ms) tw)
           (fst (min_loop R s d ms e alpha beta))"
proof (induction ms arbitrary: s e beta tw)
  case Nil
  then show ?case by (auto simp: window_exact_def)
next
  case (Cons m ms)
  from law have pp: "\<And>b m. pop R (push R b m) = b" by (simp add: pop_undoes_push_def)
  define s1 where "s1 = s\<lparr>board := push R (board s) m\<rparr>"
  define r where "r = minimax_alpha_beta R s1 d alpha beta True"
  define ev where "ev = fst r"
  define te where "te = minimax_exhaustive R (push R (board s) m) d True"
  define s3 where "s3 = (snd r)\<lparr>board := pop R (board (snd r))\<rparr>"
  define W where "W = fold min (map (\<lambda>m. minimax_exhaustive R (push R (board s) m) d True) ms) (min tw te)"
  define v where "v = fst (min_loop R s3 d ms (min e ev) alpha (min beta ev))"
  have b3: "board s3 = board s"
    using minimax_alpha_beta_frame [OF law, of s1 d alpha beta True]
    by (simp add: pp s3_def r_def s1_def)
  have we: "window_exact alpha beta te ev"
    using IH [OF Cons.prems(3), of s1 True] by (simp add: te_def ev_def r_def s1_def)
  have Wle: "W \<le> min tw te" unfolding W_def by (rule fold_min_le)
  have fm: "fold min (map (\<lambda>m. minimax_exhaustive R (push R (board s) m) d True) (m # ms)) tw = W"
    by (simp add: W_def te_def min.commute)
  have unf: "min_loop R s d (m # ms) e alpha beta =
      (if min beta ev \<le> alpha then (min e ev, s3)
       else min_loop R s3 d ms (min e ev) alpha (min beta ev))"
    by (simp add: Let_def split_beta s3_def ev_def r_def s1_def)
  show ?case
  proof (cases "min beta ev \<le> alpha")
    case True
    have "window_exact alpha beta W (min e ev)"
      by (rule min_cut [OF we True Cons.prems Wle])
    then show ?thesis unfolding fm unf using True by simp
  next
    case False
    note pre = min_continue_pre [OF we False Cons.prems]
    have rec: "window_exact alpha (min beta ev) W v"
      using Cons.IH [of "min e ev" "min tw te" "min beta ev" s3] pre
      by (simp add: b3 W_def v_def)
    have vle: "v \<le> min e ev" unfolding v_def by (rule min_loop_le)
    have "window_exact alpha beta W v"
      by (rule min_continue [OF we False Cons.prems Wle rec vle])
    then show ?thesis unfolding fm unf using False by (simp add: v_def)
  qed
qed

lemma le_PosInf [simp]: "x \<le> PosInf"
  by (cases x) simp_all

lemma fold_max_mset:
  assumes "mset xs = mset ys"
  shows "fold max xs (a::score) = fold max ys a"
proof -
  have "fold max xs = fold max ys"
    by (rule fold_multiset_equiv) (auto simp: max.left_commute fun_eq_iff assms)
  then show ?thesis by simp
qed

lemma fold_min_mset:
  assumes "mset xs = mset ys"
  shows "fold min xs (a::score) = fold min ys a"
proof -
  have "fold min xs = fold min ys"
    by (rule fold_multiset_equiv) (auto simp: min.left_commute fun_eq_iff assms)
  then show ?thesis by simp
qed

lemma minimax_alpha_beta_window:
  assumes law: "pop_undoes_push R"
  shows "alpha < beta \<Longrightarrow>
     window_exact alpha beta (minimax_exhaustive R (board s) d mp)
       (fst (minimax_alpha_beta R s d alpha beta mp))"
proof (induction d arbitrary: s alpha beta mp)
  case 0
  show ?case by (simp add: minimax_alpha_beta_0 window_exact_def)
next
  case (Suc d)
  define ordered where "ordered = fst (order_moves_fast R (board s) (legal_moves R (board s)))"
  define s2 where "s2 = s\<lparr>nodes_searched := nodes_searched s + 1\<rparr>"
  have om: "order_moves_fast R (board s) (legal_moves R (board s)) = (ordered, board s)"
    using order_moves_fast_law [OF law, of "board s" "legal_moves R (board s)"]
    by (simp add: ordered_def)
  have ms: "mset ordered = mset (legal_moves R (board s))"
    unfolding ordered_def by (rule mset_order_moves_fast)
  have mx: "window_exact alpha beta
           (fold max (map (\<lambda>m. minimax_exhaustive R (push R (board s2) m) d False) ordered) NegInf)
           (fst (max_loop R s2 d ordered NegInf alpha beta))"
    by (rule max_loop_window [OF law Suc.IH]) (use Suc.prems in simp_all)
  have mn: "window_exact alpha beta
           (fold min (map (\<lambda>m. minimax_exhaustive R (push R (board s2) m) d True) ordered) PosInf)
           (fst (min_loop R s2 d ordered PosInf alpha beta))"
    by (rule min_loop_window [OF law Suc.IH]) (use Suc.prems in simp_all)
  have e1: "fold max (map (\<lambda>m. minimax_exhaustive R (push R (board s) m) d False) ordered) NegInf
      = fold max (map (\<lambda>m. minimax_exhaustive R (push R (board s) m) d False) (legal_moves R (board s))) NegInf"
    by (rule fold_max_mset) (simp add: ms)
  have e2: "fold min (map (\<lambda>m. minimax_exhaustive R (push R (board s) m) d True) ordered) PosInf
      = fold min (map (\<lambda>m. minimax_exhaustive R (push R (board s) m) d True) (legal_moves R (board s))) PosInf"
    by (rule fold_min_mset) (simp add: ms)
  have bs: "board s2 = board s" by (simp add: s2_def)
  have unf: "fst (minimax_alpha_beta R s (Suc d) alpha beta mp) =
      (if is_game_over R (board s) then
         (if is_checkmate R (board s) then (if mp then Fin (- 100000) else Fin 100000)
          else Fin 0)
       else if mp then fst (max_loop R s2 d ordered NegInf alpha beta)
       else fst (min_loop R s2 d ordered PosInf alpha beta))"
    by (simp add: minimax_alpha_beta_Suc Let_def om s2_def)
  show ?case
  proof (cases "is_game_over R (board s)")
    case True
    then show ?thesis by (simp add: unf window_exact_def)
  next
    case False
    show ?thesis
    proof (cases mp)
      case True
      show ?thesis unfolding unf using False True mx by (simp add: bs e1)
    next
      case mpF: False
      show ?thesis unfolding unf using False mpF mn by (simp add: bs e2)
    qed
  qed
qed

text \<open>
  Claim C3.  For every position, every depth and the full window from minus infinity to
  plus infinity, the alpha-beta search returns exactly the score of the exhaustive minimax
  without pruning, to the same depth, over the same tree of legal moves, with the same
  leaf evaluation and the same terminal rule.  The library is assumed to undo a pushed
  move on \<open>pop\<close>.
\<close>

theorem alpha_beta_equals_minimax:
  assumes "pop_undoes_push R"
  shows "fst (minimax_alpha_beta R s d NegInf PosInf mp) = minimax_exhaustive R (board s) d mp"
proof -
  have lt: "NegInf < PosInf" by (simp add: less_score_def)
  have w: "window_exact NegInf PosInf (minimax_exhaustive R (board s) d mp)
       (fst (minimax_alpha_beta R s d NegInf PosInf mp))"
    by (rule minimax_alpha_beta_window [OF assms lt])
  let ?v = "fst (minimax_alpha_beta R s d NegInf PosInf mp)"
  let ?w = "minimax_exhaustive R (board s) d mp"
  show ?thesis
  proof (cases ?v)
    case NegInf
    with w have "?w \<le> NegInf" by (simp add: window_exact_def)
    then show ?thesis using NegInf by (cases ?w) simp_all
  next
    case (Fin x)
    then have "NegInf < ?v \<and> ?v < PosInf" by (simp add: less_score_def)
    with w show ?thesis by (simp add: window_exact_def)
  next
    case PosInf
    with w have "PosInf \<le> ?w" by (simp add: window_exact_def)
    then show ?thesis using PosInf by (cases ?w) simp_all
  qed
qed

subsection \<open>Opening book, evaluator, orderer\<close>

lemma hd_str_split_no_sep: "sep \<notin> set (hd (str_split sep s))"
  by (induction s) (auto split: list.splits)

lemma str_split_not_Nil: "str_split sep s \<noteq> []"
  by (induction s) (auto split: list.splits)

lemma map_of_opening_moves_None: "CHR '' '' \<notin> set k \<Longrightarrow> map_of opening_moves k = None"
  by (auto simp: opening_moves_def)

lemma get_opening_move_None: "get_opening_move R b = None"
  by (simp add: get_opening_move_def Let_def map_of_opening_moves_None hd_str_split_no_sep)

text \<open>
  Claim C10.  The search tests the depth before the end of the game: a call at depth 0
  returns the score of the static evaluator for the position, whatever the window and
  the maximizing flag; at a depth of at least 1 a finished game gets the search's own
  terminal score, minus or plus 100000 by the maximizing flag for a checkmate and 0
  otherwise.
\<close>

theorem depth_zero_is_static:
  "fst (minimax_alpha_beta R s 0 alpha beta mp) = evaluate_board R (board s)
   \<and> (is_game_over R (board s) \<longrightarrow>
        fst (minimax_alpha_beta R s (Suc d) alpha beta mp)
          = (if is_checkmate R (board s) then (if mp then Fin (- 100000) else Fin 100000)
             else Fin 0))"
  by (simp add: minimax_alpha_beta_0 minimax_alpha_beta_Suc Let_def)

text \<open>
  Claim C5.  On a checkmate the evaluator returns -100000 when White is to move and
  +100000 when Black is to move; on a stalemate or a position with insufficient material
  (which the rules of chess never make a checkmate) it returns exactly 0.  None of these
  values is divided by 100.
\<close>

theorem evaluate_terminal:
  "(is_checkmate R b \<longrightarrow> evaluate_board R b = (if turn R b then Fin (- 100000) else Fin 100000))
   \<and> (\<not> is_checkmate R b \<and> (is_stalemate R b \<or> is_insufficient_material R b)
        \<longrightarrow> evaluate_board R b = Fin 0)"
  by (simp add: evaluate_board_def)

text \<open>
  Claim C7.  On a position with exactly one legal move the move selection returns that
  move at once: the clock has been read once, the position and the count of searched
  nodes are untouched, so neither the opening book, nor the ordering, nor the search
  has run.
\<close>

theorem single_move:
  "legal_moves R (board s) = [m] \<Longrightarrow>
   get_best_move_fast R max_depth clock s time_limit
     = (Inr (Some m), s\<lparr>clock_reads := clock_reads s + 1\<rparr>)"
  by (simp add: get_best_move_fast_def time_time_def Let_def)

lemma insort_key_map:
  "insort_key k (g x) (map g ys) = map g (insort_key (\<lambda>y. k (g y)) x ys)"
  by (induction ys) simp_all

lemma sort_key_map: "sort_key k (map g xs) = map g (sort_key (\<lambda>y. k (g y)) xs)"
  by (induction xs) (simp_all add: insort_key_map)

lemma order_moves_fast_sorted:
  assumes "pop_undoes_push R"
  shows "order_moves_fast R b ms = (sort_key (\<lambda>m. - move_score R b m) ms, b)"
  by (simp add: order_moves_fast_law [OF assms] sort_key_map comp_def)

text \<open>
  Claim C6.  The orderer returns a permutation of the moves it is given, in descending
  order of their scores, and moves of equal score keep their relative order: a stable
  descending sort.  The library is assumed to undo a pushed move on \<open>pop\<close>.
\<close>

theorem order_moves_fast_stable:
  assumes "pop_undoes_push R"
  shows "mset (fst (order_moves_fast R b ms)) = mset ms
     \<and> sorted_wrt (\<lambda>x y. move_score R b x \<ge> move_score R b y) (fst (order_moves_fast R b ms))
     \<and> (\<forall>k. filter (\<lambda>m. move_score R b m = k) (fst (order_moves_fast R b ms))
             = filter (\<lambda>m. move_score R b m = k) ms)
     \<and> snd (order_moves_fast R b ms) = b"
proof -
  let ?r = "sort_key (\<lambda>m. - move_score R b m) ms"
  have "sorted (map (\<lambda>m. - move_score R b m) ?r)" by (rule sorted_sort_key)
  then have s: "sorted_wrt (\<lambda>x y. move_score R b x \<ge> move_score R b y) ?r"
    by (simp add: sorted_wrt_map)
  have st: "filter (\<lambda>m. move_score R b m = k) ?r = filter (\<lambda>m. move_score R b m = k) ms" for k
    using sort_key_stable [of "\<lambda>m. - move_score R b m" "- k" ms] by simp
  show ?thesis
    by (simp add: order_moves_fast_sorted [OF assms] s st)
qed

subsection \<open>Move selection\<close>

lemma best_or_first_legal:
  "legal_or_none L bm \<Longrightarrow> L \<noteq> [] \<Longrightarrow> \<exists>m\<in>set L. best_or_first bm L = Inr (Some m)"
  by (cases bm; cases L) (auto simp: best_or_first_def legal_or_none_def)

lemma root_moves_loop_inv:
  "legal_or_none L cb \<Longrightarrow> (cb = None \<longrightarrow> cbv = NegInf) \<Longrightarrow> set ms \<subseteq> set L \<Longrightarrow>
   root_moves_loop R clock st budget depth ms cb cbv s = (timed_out, cb', cbv', s') \<Longrightarrow>
   legal_or_none L cb' \<and> (cb' = None \<longrightarrow> cbv' = NegInf)"
proof (induction ms arbitrary: cb cbv s)
  case Nil
  then show ?case by simp
next
  case (Cons m ms)
  show ?case
  proof (cases "fst (time_time clock s) - st > budget")
    case True
    with Cons.prems show ?thesis by (simp add: split_beta Let_def)
  next
    case False
    let ?s1 = "(snd (time_time clock s))\<lparr>board := push R (board (snd (time_time clock s))) m\<rparr>"
    let ?r = "minimax_alpha_beta R ?s1 (depth - 1) NegInf PosInf False"
    let ?s3 = "(snd ?r)\<lparr>board := pop R (board (snd ?r))\<rparr>"
    show ?thesis
    proof (cases "fst ?r > cbv")
      case True
      with False Cons.prems(4)
      have "root_moves_loop R clock st budget depth ms (Some m) (fst ?r) ?s3 = (timed_out, cb', cbv', s')"
        by (simp add: split_beta Let_def)
      moreover have "legal_or_none L (Some m)" using Cons.prems(3) by (simp add: legal_or_none_def)
      ultimately show ?thesis using Cons.IH [of "Some m" "fst ?r" ?s3] Cons.prems(3) by simp
    next
      case nb: False
      with False Cons.prems(4)
      have "root_moves_loop R clock st budget depth ms cb cbv ?s3 = (timed_out, cb', cbv', s')"
        by (simp add: split_beta Let_def)
      then show ?thesis using Cons.IH [of cb cbv ?s3] Cons.prems by simp
    qed
  qed
qed

lemma Fin_not_less_NegInf: "\<not> Fin x < NegInf"
  by (simp add: less_score_def)

lemma deepening_loop_legal:
  "legal_or_none L bm \<Longrightarrow> L \<noteq> [] \<Longrightarrow>
   \<exists>m\<in>set L. fst (deepening_loop R clock st budget depths L bm s) = Inr (Some m)"
proof (induction depths arbitrary: bm s)
  case Nil
  then show ?case using best_or_first_legal by simp
next
  case (Cons depth depths)
  let ?s0 = "s\<lparr>nodes_searched := 0\<rparr>"
  obtain timed_out cb cbv s1 where r: "root_moves_loop R clock st budget depth L None NegInf ?s0 = (timed_out, cb, cbv, s1)"
    by (metis prod_cases4)
  have inv: "legal_or_none L cb \<and> (cb = None \<longrightarrow> cbv = NegInf)"
    by (rule root_moves_loop_inv [OF _ _ _ r]) (simp_all add: legal_or_none_def)
  let ?bm = "if move_truthy cb then cb else bm"
  have lb: "legal_or_none L ?bm" using inv Cons.prems(1) by simp
  show ?case
  proof (cases timed_out)
    case True
    then show ?thesis using r best_or_first_legal [OF Cons.prems] by (simp add: Let_def)
  next
    case False
    show ?thesis
    proof (cases "cbv > Fin 5000")
      case True
      then have "cb \<noteq> None" using inv Fin_not_less_NegInf by auto
      then obtain m where "cb = Some m" "m \<in> set L" using inv by (auto simp: legal_or_none_def)
      then show ?thesis using r False True by (simp add: Let_def)
    next
      case nw: False
      show ?thesis
      proof (cases "fst (time_time clock s1) - st > budget / 2")
        case True
        then show ?thesis using r False nw best_or_first_legal [OF lb Cons.prems(2)]
          by (auto simp: Let_def split_beta split: if_splits)
      next
        case nt: False
        then show ?thesis
          using r False nw Cons.IH [OF lb Cons.prems(2), of "snd (time_time clock s1)"]
          by (auto simp: Let_def split_beta split: if_splits)
      qed
    qed
  qed
qed

text \<open>
  Claim C8.  The move selection returns no move exactly when the position has no legal
  move; on a position with a legal move it returns one of the legal moves of the
  position, for every clock, every time budget and every maximal depth, so also when
  the budget is exhausted before the first root move is searched.
\<close>

theorem get_best_move_fast_legal:
  "(fst (get_best_move_fast R max_depth clock s time_limit) = Inr None
      \<longleftrightarrow> legal_moves R (board s) = [])
   \<and> (legal_moves R (board s) \<noteq> [] \<longrightarrow>
        (\<exists>m\<in>set (legal_moves R (board s)).
           fst (get_best_move_fast R max_depth clock s time_limit) = Inr (Some m)))"
proof (cases "legal_moves R (board s)")
  case Nil
  then show ?thesis by (simp add: get_best_move_fast_def time_time_def Let_def)
next
  case (Cons m ms)
  let ?L = "legal_moves R (board s)"
  let ?O = "fst (order_moves_fast R (board s) ?L)"
  have so: "set ?O = set ?L" using mset_order_moves_fast [of R "board s" ?L] by (metis set_mset_mset)
  have ne: "?O \<noteq> []" using so Cons by auto
  have ex: "\<exists>m\<in>set ?L. fst (get_best_move_fast R max_depth clock s time_limit) = Inr (Some m)"
  proof (cases ms)
    case Nil
    with Cons show ?thesis by (simp add: get_best_move_fast_def time_time_def Let_def)
  next
    case c2: (Cons m2 ms2)
    have "\<exists>m\<in>set ?O. fst (deepening_loop R clock (clock (clock_reads s)) time_limit
            (map nat [1..max_depth]) ?O None
            (s\<lparr>clock_reads := clock_reads s + 1, board := snd (order_moves_fast R (board s) ?L)\<rparr>))
          = Inr (Some m)"
      by (rule deepening_loop_legal [OF _ ne]) (simp add: legal_or_none_def)
    then show ?thesis
      using Cons c2 so
      by (simp add: get_best_move_fast_def time_time_def Let_def get_opening_move_None split_beta)
  qed
  then show ?thesis using Cons by auto
qed

text \<open>
  What the orderer computes before the bonuses for a promotion and for a check are
  added.  The victim is looked up on the destination square of the move: a capture
  whose destination square and origin square both hold a piece gets the value of the
  piece on the destination square minus the value of the moving piece plus 1000; a
  capture whose destination square is empty gets 0, as does a move that is not a
  capture.
\<close>

lemma move_score_capture_part:
  "(is_capture R b m \<and> piece_at R b (to_square m) = Some victim
      \<and> piece_at R b (from_square m) = Some aggressor \<longrightarrow>
      move_score R b m - (if promotion m \<noteq> None then 900 else 0)
        - (if is_check R (push R b m) then 50 else 0)
      = piece_values (piece_type victim) - piece_values (piece_type aggressor) + 1000)
   \<and> (is_capture R b m \<and> piece_at R b (to_square m) = None \<longrightarrow>
      move_score R b m - (if promotion m \<noteq> None then 900 else 0)
        - (if is_check R (push R b m) then 50 else 0) = 0)
   \<and> (\<not> is_capture R b m \<longrightarrow>
      move_score R b m - (if promotion m \<noteq> None then 900 else 0)
        - (if is_check R (push R b m) then 50 else 0) = 0)"
  by (simp add: move_score_def score_move_def capture_score_def Let_def)

subsection \<open>Evaluation under colour mirroring\<close>

lemma square_mirror_lt: "sq < 64 \<Longrightarrow> square_mirror sq < 64"
  by (simp add: square_mirror_def square_def square_file_def square_rank_def)

lemma square_mirror_invol: "sq < 64 \<Longrightarrow> square_mirror (square_mirror sq) = sq"
  by (simp add: square_mirror_def square_def square_file_def square_rank_def)

lemma square_file_mirror: "square_file (square_mirror sq) = square_file sq"
  by (simp add: square_mirror_def square_def square_file_def)

lemma square_rank_mirror: "sq < 64 \<Longrightarrow> square_rank (square_mirror sq) = 7 - square_rank sq"
  by (simp add: square_mirror_def square_def square_file_def square_rank_def)

lemma square_mirror_square: "f < 8 \<Longrightarrow> r < 8 \<Longrightarrow> square_mirror (square f r) = square f (7 - r)"
  by (simp add: square_mirror_def square_def square_file_def square_rank_def)

lemma square_lt: "f < 8 \<Longrightarrow> r < 8 \<Longrightarrow> square f r < 64"
  by (simp add: square_def)

lemma sum_list_mirror:
  fixes f :: "nat \<Rightarrow> int"
  shows "sum_list (map (\<lambda>sq. f (square_mirror sq)) [0..<64]) = sum_list (map f [0..<64])"
proof -
  have "sum_list (map (\<lambda>sq. f (square_mirror sq)) [0..<64]) = (\<Sum>sq\<in>{0..<64}. f (square_mirror sq))"
    by (simp add: interv_sum_list_conv_sum_set_nat)
  also have "\<dots> = (\<Sum>sq\<in>{0..<64}. f sq)"
    by (rule sum.reindex_bij_witness [where i = square_mirror and j = square_mirror])
       (auto simp: square_mirror_lt square_mirror_invol)
  also have "\<dots> = sum_list (map f [0..<64])"
    by (simp add: interv_sum_list_conv_sum_set_nat)
  finally show ?thesis .
qed

lemma sum_list_mirror_cong:
  fixes f g :: "nat \<Rightarrow> int"
  assumes "\<And>sq. sq < 64 \<Longrightarrow> g sq = f (square_mirror sq)"
  shows "sum_list (map g [0..<64]) = sum_list (map f [0..<64])"
proof -
  have "map g [0..<64] = map (\<lambda>sq. f (square_mirror sq)) [0..<64]"
    by (rule map_cong [OF refl]) (simp add: assms)
  then show ?thesis by (simp only: sum_list_mirror)
qed

lemma sum_list_map_uminus:
  fixes f :: "'a \<Rightarrow> int"
  shows "sum_list (map (\<lambda>x. - f x) xs) = - sum_list (map f xs)"
  by (induction xs) simp_all

subsubsection \<open>The loops as sums over the squares\<close>

lemma material_fold:
  "fold (\<lambda>(sq, p) score.
            let v = piece_values (piece_type p); positional_bonus = get_positional_bonus p sq
            in if color p = WHITE then score + (v + positional_bonus)
               else score - (v + positional_bonus))
      (List.map_filter (\<lambda>sq. map_option (Pair sq) (piece_at R b sq)) xs) a
   = a + sum_list (map (square_term R b) xs)"
proof (induction xs arbitrary: a)
  case Nil
  show ?case by (simp add: map_filter_simps)
next
  case (Cons x xs)
  show ?case
    using Cons.IH
    by (cases "piece_at R b x") (simp_all add: map_filter_simps square_term_def Let_def)
qed

lemma material_score_sum:
  "material_score R b = sum_list (map (square_term R b) [0..<64])"
  unfolding material_score_def piece_map_def by (simp only: material_fold)

lemma white_fold:
  "fold (\<lambda>pawn score. if white_pawn_is_passed R b pawn
                        then score + int (square_rank pawn) * 10 else score)
      (filter (\<lambda>sq. piece_at R b sq = Some (Piece PAWN WHITE)) xs) a
   = a + sum_list (map (white_term R b) xs)"
  by (induction xs arbitrary: a) (simp_all add: white_term_def)

lemma black_fold:
  "fold (\<lambda>pawn score. if black_pawn_is_passed R b pawn
                        then score - (7 - int (square_rank pawn)) * 10 else score)
      (filter (\<lambda>sq. piece_at R b sq = Some (Piece PAWN BLACK)) xs) a
   = a - sum_list (map (black_term R b) xs)"
  by (induction xs arbitrary: a) (simp_all add: black_term_def)

lemma pawn_structure_sum:
  "evaluate_pawn_structure_simple R b
     = sum_list (map (white_term R b) [0..<64]) - sum_list (map (black_term R b) [0..<64])"
  unfolding evaluate_pawn_structure_simple_def pieces_def Let_def
  by (simp only: white_fold black_fold)

subsubsection \<open>Square by square\<close>

lemma positional_bonus_mirror:
  "sq < 64 \<Longrightarrow> get_positional_bonus (mirror_piece p) sq = get_positional_bonus p (square_mirror sq)"
  by (cases "color p") (simp_all add: get_positional_bonus_def mirror_piece_def square_mirror_invol)

lemma square_term_mirror:
  assumes "\<And>sq. sq < 64 \<Longrightarrow>
             piece_at R P' sq = map_option mirror_piece (piece_at R P (square_mirror sq))"
    and "sq < 64"
  shows "square_term R P' sq = - square_term R P (square_mirror sq)"
proof (cases "piece_at R P (square_mirror sq)")
  case None
  then show ?thesis using assms by (simp add: square_term_def)
next
  case (Some p)
  have "piece_at R P' sq = Some (mirror_piece p)" using assms Some by simp
  then show ?thesis
    using Some positional_bonus_mirror [OF assms(2), of p]
    by (simp add: square_term_def) (simp add: mirror_piece_def)
qed

lemma mirror_piece_eq:
  "(map_option mirror_piece x = Some (Piece pt c)) = (x = Some (Piece pt (\<not> c)))"
  by (cases x) (auto simp: mirror_piece_def piece.expand)

lemma files_lt: "f < 8 \<Longrightarrow> g \<in> set [max 0 (f - 1), f, min 7 (f + 1)] \<Longrightarrow> g < (8::nat)"
  by auto

lemma ranks_flip:
  "k < 8 \<Longrightarrow> (\<forall>r\<in>{k + 1..<8}. Q (7 - r)) = (\<forall>r\<in>{0..<7 - k}. Q (r::nat))"
proof
  assume k: "k < 8" and a: "\<forall>r\<in>{k + 1..<8}. Q (7 - r)"
  show "\<forall>r\<in>{0..<7 - k}. Q r"
  proof
    fix r assume "r \<in> {0..<7 - k}"
    then have "7 - r \<in> {k + 1..<8}" and "7 - (7 - r) = r" by auto
    with a show "Q r" by metis
  qed
next
  assume k: "k < 8" and a: "\<forall>r\<in>{0..<7 - k}. Q r"
  show "\<forall>r\<in>{k + 1..<8}. Q (7 - r)"
  proof
    fix r assume "r \<in> {k + 1..<8}"
    then have "7 - r \<in> {0..<7 - k}" by auto
    with a show "Q (7 - r)" by blast
  qed
qed

lemma mirror_sym:
  assumes M: "\<And>sq. sq < 64 \<Longrightarrow>
             piece_at R P' sq = map_option mirror_piece (piece_at R P (square_mirror sq))"
    and "sq < 64"
  shows "piece_at R P sq = map_option mirror_piece (piece_at R P' (square_mirror sq))"
proof -
  have "piece_at R P' (square_mirror sq) = map_option mirror_piece (piece_at R P sq)"
    using M [OF square_mirror_lt [OF assms(2)]] by (simp add: square_mirror_invol assms(2))
  then show ?thesis
    by (simp add: option.map_comp comp_def mirror_piece_def option.map_ident)
qed

lemma column_flip:
  assumes M: "\<And>sq. sq < 64 \<Longrightarrow>
             piece_at R P' sq = map_option mirror_piece (piece_at R P (square_mirror sq))"
    and g: "g < 8" and k: "k < 8"
  shows "(\<forall>r\<in>{k + 1..<8}. piece_at R P' (square g r) \<noteq> Some (Piece PAWN BLACK))
       = (\<forall>r\<in>{0..<7 - k}. piece_at R P (square g r) \<noteq> Some (Piece PAWN WHITE))"
proof -
  have "(\<forall>r\<in>{k + 1..<8}. piece_at R P' (square g r) \<noteq> Some (Piece PAWN BLACK))
      = (\<forall>r\<in>{k + 1..<8}. piece_at R P (square g (7 - r)) \<noteq> Some (Piece PAWN WHITE))"
  proof (rule ball_cong [OF refl])
    fix r assume "r \<in> {k + 1..<8}"
    then have r: "r < 8" by simp
    show "(piece_at R P' (square g r) \<noteq> Some (Piece PAWN BLACK))
        = (piece_at R P (square g (7 - r)) \<noteq> Some (Piece PAWN WHITE))"
      unfolding M [OF square_lt [OF g r]] square_mirror_square [OF g r] mirror_piece_eq
      by simp
  qed
  also have "\<dots> = (\<forall>r\<in>{0..<7 - k}. piece_at R P (square g r) \<noteq> Some (Piece PAWN WHITE))"
    by (rule ranks_flip [OF k, of "\<lambda>r. piece_at R P (square g r) \<noteq> Some (Piece PAWN WHITE)"])
  finally show ?thesis .
qed

lemma white_passed_mirror:
  assumes M: "\<And>sq. sq < 64 \<Longrightarrow>
             piece_at R P' sq = map_option mirror_piece (piece_at R P (square_mirror sq))"
    and sq: "sq < 64"
  shows "white_pawn_is_passed R P' sq = black_pawn_is_passed R P (square_mirror sq)"
proof -
  have f: "square_file sq < 8" by (simp add: square_file_def)
  have k: "square_rank sq < 8" using sq by (simp add: square_rank_def)
  have c: "(\<forall>r\<in>{square_rank sq + 1..<8}. piece_at R P' (square g r) \<noteq> Some (Piece PAWN BLACK))
       = (\<forall>r\<in>{0..<7 - square_rank sq}. piece_at R P (square g r) \<noteq> Some (Piece PAWN WHITE))"
    if "g \<in> set [max 0 (square_file sq - 1), square_file sq, min 7 (square_file sq + 1)]" for g
    by (rule column_flip [OF M files_lt [OF f that] k])
  show ?thesis
    unfolding white_pawn_is_passed_def black_pawn_is_passed_def Let_def list_all_iff
      square_file_mirror square_rank_mirror [OF sq] set_upt
    by (rule ball_cong [OF refl]) (rule c)
qed

lemma white_term_mirror:
  assumes M: "\<And>sq. sq < 64 \<Longrightarrow>
             piece_at R P' sq = map_option mirror_piece (piece_at R P (square_mirror sq))"
    and sq: "sq < 64"
  shows "white_term R P' sq = black_term R P (square_mirror sq)"
proof -
  have k: "square_rank sq < 8" using sq by (simp add: square_rank_def)
  have v: "int (square_rank sq) * 10 = (7 - int (square_rank (square_mirror sq))) * 10"
    using k by (simp add: square_rank_mirror [OF sq] of_nat_diff)
  have p: "(piece_at R P' sq = Some (Piece PAWN WHITE))
         = (piece_at R P (square_mirror sq) = Some (Piece PAWN BLACK))"
    unfolding M [OF sq] mirror_piece_eq by simp
  show ?thesis
    unfolding white_term_def black_term_def
    by (simp only: p white_passed_mirror [OF M sq] v)
qed

lemma black_term_mirror:
  assumes M: "\<And>sq. sq < 64 \<Longrightarrow>
             piece_at R P' sq = map_option mirror_piece (piece_at R P (square_mirror sq))"
    and sq: "sq < 64"
  shows "black_term R P' sq = white_term R P (square_mirror sq)"
proof -
  have "white_term R P (square_mirror sq) = black_term R P' (square_mirror (square_mirror sq))"
    by (rule white_term_mirror [OF mirror_sym [OF M] square_mirror_lt [OF sq]])
  then show ?thesis by (simp add: square_mirror_invol [OF sq])
qed

lemma material_score_mirror:
  assumes M: "\<And>sq. sq < 64 \<Longrightarrow>
             piece_at R P' sq = map_option mirror_piece (piece_at R P (square_mirror sq))"
  shows "material_score R P' = - material_score R P"
proof -
  have "sum_list (map (square_term R P') [0..<64])
      = sum_list (map (\<lambda>sq. - square_term R P sq) [0..<64])"
    by (rule sum_list_mirror_cong) (rule square_term_mirror [OF M])
  then show ?thesis
    by (simp only: material_score_sum sum_list_map_uminus)
qed

lemma pawn_structure_mirror:
  assumes M: "\<And>sq. sq < 64 \<Longrightarrow>
             piece_at R P' sq = map_option mirror_piece (piece_at R P (square_mirror sq))"
  shows "evaluate_pawn_structure_simple R P' = - evaluate_pawn_structure_simple R P"
proof -
  have w: "sum_list (map (white_term R P') [0..<64]) = sum_list (map (black_term R P) [0..<64])"
    by (rule sum_list_mirror_cong) (rule white_term_mirror [OF M])
  have b: "sum_list (map (black_term R P') [0..<64]) = sum_list (map (white_term R P) [0..<64])"
    by (rule sum_list_mirror_cong) (rule black_term_mirror [OF M])
  show ?thesis
    by (simp only: pawn_structure_sum w b)
qed

lemma evaluate_board_split:
  "evaluate_board R b = Fin (static_part R b + mobility_contribution R b)"
  by (simp add: evaluate_board_def static_part_def mobility_contribution_def add_divide_distrib)

text \<open>
  Claim C9.  For a position and its colour-mirrored counterpart, the evaluation of each
  is its mobility contribution plus a rest, and the rest of the counterpart is the
  negation of the rest of the position: material, piece-square tables, rook files,
  queen centralisation, pawn structure and the terminal values are antisymmetric under
  colour mirroring.
\<close>

theorem evaluate_board_antisymmetric:
  assumes "color_mirrored R P P'"
  shows "evaluate_board R P = Fin (static_part R P + mobility_contribution R P)
     \<and> evaluate_board R P' = Fin (static_part R P' + mobility_contribution R P')
     \<and> static_part R P' = - static_part R P"
proof -
  have M: "piece_at R P' sq = map_option mirror_piece (piece_at R P (square_mirror sq))"
    if "sq < 64" for sq
    using assms that by (simp add: color_mirrored_def list_all_iff)
  have t: "turn R P' = (\<not> turn R P)" "is_checkmate R P' = is_checkmate R P"
    "is_stalemate R P' = is_stalemate R P"
    "is_insufficient_material R P' = is_insufficient_material R P"
    using assms by (simp_all add: color_mirrored_def)
  have e: "material_score R P' + evaluate_pawn_structure_simple R P'
      = - (material_score R P + evaluate_pawn_structure_simple R P)"
    by (simp add: material_score_mirror [OF M] pawn_structure_mirror [OF M])
  have s: "static_part R P' = - static_part R P"
    unfolding static_part_def t e by (simp del: of_int_add)
  show ?thesis
    by (intro conjI evaluate_board_split s)
qed

section \<open>The properties on the recorded positions\<close>

lemma recorded_rules_sel [simp]:
  "legal_moves recorded_rules = cb_legal_moves"
  "push recorded_rules = cb_push"
  "pop recorded_rules = cb_pop"
  "is_check recorded_rules = cb_is_check"
  "is_checkmate recorded_rules = cb_is_checkmate"
  "is_stalemate recorded_rules = cb_is_stalemate"
  "is_insufficient_material recorded_rules = cb_is_insufficient_material"
  "is_game_over recorded_rules =
     (\<lambda>b. cb_is_checkmate b \<or> cb_is_stalemate b \<or> cb_is_insufficient_material b)"
  "is_capture recorded_rules = cb_is_capture"
  "piece_at recorded_rules = cb_piece_at"
  "turn recorded_rules = to_move"
  "fen recorded_rules = cb_fen"
  by (simp_all add: recorded_rules_def)

lemma recorded_rules_pop_push: "pop_undoes_push recorded_rules"
  by (simp add: pop_undoes_push_def cb_pop_def cb_push_def Let_def)

lemma start_board_fen:
  "cb_fen start_board = ''rnbqkbnr/pppppppp/8/8/8/8/PPPPPPPP/RNBQKBNR w KQkq - 0 1''"
  by code_simp

lemma en_passant_board_fen: "cb_fen en_passant_board = ''4k3/8/5p2/3pP3/8/8/8/4K3 w - d6 0 2''"
  by code_simp

lemma en_passant_board_legal: "cb_legal_moves en_passant_board = en_passant_moves"
  by code_simp

lemma start_board_legal: "cb_legal_moves start_board = white_first_moves"
  by code_simp

lemma single_move_board_legal: "cb_legal_moves single_move_board = [Move 7 15 None]"
  by code_simp

lemma stalemate_board_legal: "cb_legal_moves stalemate_board = []"
  by code_simp

lemma en_passant_board_exhaustive:
  "minimax_exhaustive recorded_rules en_passant_board 1 True = Fin (1 / 10)"
  by code_simp

text \<open>
  Claim C1.  The opening book is looked up under the first field of the position's FEN,
  the piece placement, while its two keys are full FEN strings of six fields; no key
  is ever found.  So the lookup returns no move on every position.  At the starting
  position in particular: its FEN is a key of the book, the first book move e2e4 is
  legal, the lookup still returns no move, and the move selection goes on to order and
  search the moves: with a time budget that is exhausted at the first root move it
  returns g1h3, the first move of the ordered list, not e2e4.
\<close>

theorem opening_book_never_answers:
  "get_opening_move R b = None
   \<and> fen recorded_rules start_board
       = ''rnbqkbnr/pppppppp/8/8/8/8/PPPPPPPP/RNBQKBNR w KQkq - 0 1''
   \<and> map_of opening_moves ''rnbqkbnr/pppppppp/8/8/8/8/PPPPPPPP/RNBQKBNR w KQkq - 0 1''
       = Some [Move 12 28 None, Move 11 27 None, Move 6 21 None]
   \<and> Move 12 28 None \<in> set (legal_moves recorded_rules start_board)
   \<and> get_opening_move recorded_rules start_board = None
   \<and> fst (get_best_move_fast recorded_rules 1 (\<lambda>n. if n = 0 then 0 else 10)
            \<lparr>board = start_board, nodes_searched = 0, clock_reads = 0\<rparr> 2)
       = Inr (Some (Move 6 23 None))"
proof -
  have a: "map_of opening_moves ''rnbqkbnr/pppppppp/8/8/8/8/PPPPPPPP/RNBQKBNR w KQkq - 0 1''
       = Some [Move 12 28 None, Move 11 27 None, Move 6 21 None]"
    by (simp add: opening_moves_def)
  have b: "Move 12 28 None \<in> set (legal_moves recorded_rules start_board)"
    by (simp add: start_board_legal white_first_moves_def)
  have c: "fst (get_best_move_fast recorded_rules 1 (\<lambda>n. if n = 0 then 0 else 10)
            \<lparr>board = start_board, nodes_searched = 0, clock_reads = 0\<rparr> 2)
       = Inr (Some (Move 6 23 None))"
    by code_simp
  have f: "fen recorded_rules start_board
       = ''rnbqkbnr/pppppppp/8/8/8/8/PPPPPPPP/RNBQKBNR w KQkq - 0 1''"
    by (simp add: start_board_fen)
  show ?thesis
    by (intro conjI get_opening_move_None f a b c)
qed

text \<open>
  Claim C2.  The score of a capture before the bonuses is not always the value of the
  captured piece minus the value of the moving piece plus 1000: the orderer enters its
  capture branch on \<open>is_capture\<close>, which holds for an en passant capture, but looks the
  victim up on the destination square of the move, which is then empty.  In the
  recorded position the move e5 to d6 is legal and a capture: the white pawn on e5
  takes the black pawn on d5, which leaves the board, and lands on the empty square d6.
  It is no promotion and gives no check; its score is 0, not 100 - 100 + 1000, and the
  orderer puts it last, behind every quiet move of the position.
\<close>

theorem en_passant_capture_scores_zero:
  "Move 36 43 None \<in> set (legal_moves recorded_rules en_passant_board)
   \<and> is_capture recorded_rules en_passant_board (Move 36 43 None)
   \<and> piece_at recorded_rules en_passant_board 36 = Some (Piece PAWN WHITE)
   \<and> piece_at recorded_rules en_passant_board 35 = Some (Piece PAWN BLACK)
   \<and> piece_at recorded_rules (push recorded_rules en_passant_board (Move 36 43 None)) 35 = None
   \<and> piece_at recorded_rules (push recorded_rules en_passant_board (Move 36 43 None)) 43
       = Some (Piece PAWN WHITE)
   \<and> promotion (Move 36 43 None) = None
   \<and> \<not> is_check recorded_rules (push recorded_rules en_passant_board (Move 36 43 None))
   \<and> move_score recorded_rules en_passant_board (Move 36 43 None) = 0
   \<and> move_score recorded_rules en_passant_board (Move 36 43 None)
       \<noteq> piece_values PAWN - piece_values PAWN + 1000
   \<and> last (fst (order_moves_fast recorded_rules en_passant_board
                 (legal_moves recorded_rules en_passant_board))) = Move 36 43 None"
  by code_simp

lemma move_score_capture_part_on_en_passant_board:
  "(is_capture recorded_rules en_passant_board (Move 36 45 None)
    \<and> piece_at recorded_rules en_passant_board (to_square (Move 36 45 None))
        = Some (Piece PAWN BLACK)
    \<and> piece_at recorded_rules en_passant_board (from_square (Move 36 45 None))
        = Some (Piece PAWN WHITE))
   \<and> move_score recorded_rules en_passant_board (Move 36 45 None) = 1000
   \<and> (is_capture recorded_rules en_passant_board (Move 36 43 None)
      \<and> piece_at recorded_rules en_passant_board (to_square (Move 36 43 None)) = None)
   \<and> move_score recorded_rules en_passant_board (Move 36 43 None) = 0
   \<and> \<not> is_capture recorded_rules en_passant_board (Move 36 44 None)
   \<and> move_score recorded_rules en_passant_board (Move 36 44 None) = 0"
proof -
  let ?R = recorded_rules and ?b = en_passant_board
  have h1: "is_capture ?R ?b (Move 36 45 None)
    \<and> piece_at ?R ?b (to_square (Move 36 45 None)) = Some (Piece PAWN BLACK)
    \<and> piece_at ?R ?b (from_square (Move 36 45 None)) = Some (Piece PAWN WHITE)"
    by code_simp
  have h2: "is_capture ?R ?b (Move 36 43 None)
      \<and> piece_at ?R ?b (to_square (Move 36 43 None)) = None"
    by code_simp
  have h3: "\<not> is_capture ?R ?b (Move 36 44 None)"
    by code_simp
  have n1: "\<not> is_check ?R (push ?R ?b (Move 36 45 None))"
    and n2: "\<not> is_check ?R (push ?R ?b (Move 36 43 None))"
    and n3: "\<not> is_check ?R (push ?R ?b (Move 36 44 None))"
    by code_simp+
  have c1: "move_score ?R ?b (Move 36 45 None) = 1000"
    using move_score_capture_part [of ?R ?b "Move 36 45 None" "Piece PAWN BLACK" "Piece PAWN WHITE"]
      h1 n1 by (simp add: piece_values_def)
  have c2: "move_score ?R ?b (Move 36 43 None) = 0"
    using move_score_capture_part [of ?R ?b "Move 36 43 None" "Piece PAWN BLACK" "Piece PAWN WHITE"]
      h2 n2 by simp
  have c3: "move_score ?R ?b (Move 36 44 None) = 0"
    using move_score_capture_part [of ?R ?b "Move 36 44 None" "Piece PAWN BLACK" "Piece PAWN WHITE"]
      h3 n3 by simp
  show ?thesis by (intro conjI h1 c1 h2 c2 h3 c3)
qed

theorem alpha_beta_equals_minimax_witness:
  "pop_undoes_push recorded_rules
   \<and> fst (minimax_alpha_beta recorded_rules
            \<lparr>board = en_passant_board, nodes_searched = 0, clock_reads = 0\<rparr> 1 NegInf PosInf True)
       = Fin (1 / 10)
   \<and> minimax_exhaustive recorded_rules en_passant_board 1 True = Fin (1 / 10)"
proof -
  let ?s = "\<lparr>board = en_passant_board, nodes_searched = 0, clock_reads = 0\<rparr>"
  have "fst (minimax_alpha_beta recorded_rules ?s 1 NegInf PosInf True)
       = minimax_exhaustive recorded_rules (board ?s) 1 True"
    by (rule alpha_beta_equals_minimax [OF recorded_rules_pop_push])
  then have c: "fst (minimax_alpha_beta recorded_rules ?s 1 NegInf PosInf True) = Fin (1 / 10)"
    by (simp only: state.select_convs en_passant_board_exhaustive)
  show ?thesis
    by (intro conjI recorded_rules_pop_push c en_passant_board_exhaustive)
qed

theorem search_restores_position_witness:
  "pop_undoes_push recorded_rules
   \<and> snd (order_moves_fast recorded_rules en_passant_board en_passant_moves) = en_passant_board
   \<and> board (snd (minimax_alpha_beta recorded_rules
        \<lparr>board = en_passant_board, nodes_searched = 0, clock_reads = 0\<rparr> 2 (Fin 0) (Fin 1) True))
       = en_passant_board
   \<and> fen recorded_rules (board (snd (minimax_alpha_beta recorded_rules
        \<lparr>board = en_passant_board, nodes_searched = 0, clock_reads = 0\<rparr> 2 (Fin 0) (Fin 1) True)))
       = ''4k3/8/5p2/3pP3/8/8/8/4K3 w - d6 0 2''"
proof -
  let ?s = "\<lparr>board = en_passant_board, nodes_searched = 0, clock_reads = 0\<rparr>"
  let ?r = "minimax_alpha_beta recorded_rules ?s 2 (Fin 0) (Fin 1) True"
  have "snd (order_moves_fast recorded_rules en_passant_board en_passant_moves) = en_passant_board
     \<and> board (snd ?r) = board ?s
     \<and> fen recorded_rules (board (snd ?r)) = fen recorded_rules (board ?s)"
    by (rule search_restores_position [OF recorded_rules_pop_push])
  then have c: "snd (order_moves_fast recorded_rules en_passant_board en_passant_moves) = en_passant_board
     \<and> board (snd ?r) = en_passant_board
     \<and> fen recorded_rules (board (snd ?r)) = ''4k3/8/5p2/3pP3/8/8/8/4K3 w - d6 0 2''"
    by (simp only: state.select_convs recorded_rules_sel en_passant_board_fen)
  show ?thesis
    by (rule conjI [OF recorded_rules_pop_push c])
qed

theorem evaluate_terminal_witness:
  "(is_checkmate recorded_rules fools_mate_board \<and> turn recorded_rules fools_mate_board
    \<and> evaluate_board recorded_rules fools_mate_board = Fin (- 100000))
   \<and> (is_checkmate recorded_rules back_rank_mate_board
      \<and> \<not> turn recorded_rules back_rank_mate_board
      \<and> evaluate_board recorded_rules back_rank_mate_board = Fin 100000)
   \<and> (\<not> is_checkmate recorded_rules stalemate_board
      \<and> is_stalemate recorded_rules stalemate_board
      \<and> evaluate_board recorded_rules stalemate_board = Fin 0)"
proof -
  let ?R = recorded_rules
  have h1: "is_checkmate ?R fools_mate_board" and t1: "turn ?R fools_mate_board"
    and h2: "is_checkmate ?R back_rank_mate_board" and t2: "\<not> turn ?R back_rank_mate_board"
    and h3: "\<not> is_checkmate ?R stalemate_board" and t3: "is_stalemate ?R stalemate_board"
    by code_simp+
  have c1: "evaluate_board ?R fools_mate_board = Fin (- 100000)"
    using evaluate_terminal [of ?R fools_mate_board] h1 t1 by simp
  have c2: "evaluate_board ?R back_rank_mate_board = Fin 100000"
    using evaluate_terminal [of ?R back_rank_mate_board] h2 t2 by simp
  have c3: "evaluate_board ?R stalemate_board = Fin 0"
    using evaluate_terminal [of ?R stalemate_board] h3 t3 by simp
  show ?thesis by (intro conjI h1 t1 c1 h2 t2 c2 h3 t3 c3)
qed

lemma en_passant_board_ordered:
  "fst (order_moves_fast recorded_rules en_passant_board en_passant_moves) =
    [Move 36 45 None, Move 4 13 None, Move 4 12 None, Move 4 11 None, Move 4 5 None,
     Move 4 3 None, Move 36 44 None, Move 36 43 None]"
  by code_simp

theorem order_moves_fast_stable_witness:
  "pop_undoes_push recorded_rules
   \<and> fst (order_moves_fast recorded_rules en_passant_board en_passant_moves) =
       [Move 36 45 None, Move 4 13 None, Move 4 12 None, Move 4 11 None, Move 4 5 None,
        Move 4 3 None, Move 36 44 None, Move 36 43 None]
   \<and> mset (fst (order_moves_fast recorded_rules en_passant_board en_passant_moves))
       = mset en_passant_moves
   \<and> sorted_wrt (\<lambda>x y. move_score recorded_rules en_passant_board x
                         \<ge> move_score recorded_rules en_passant_board y)
       (fst (order_moves_fast recorded_rules en_passant_board en_passant_moves))
   \<and> (\<forall>k. filter (\<lambda>m. move_score recorded_rules en_passant_board m = k)
             (fst (order_moves_fast recorded_rules en_passant_board en_passant_moves))
           = filter (\<lambda>m. move_score recorded_rules en_passant_board m = k) en_passant_moves)
   \<and> snd (order_moves_fast recorded_rules en_passant_board en_passant_moves) = en_passant_board"
proof -
  note t = order_moves_fast_stable [OF recorded_rules_pop_push, of en_passant_board en_passant_moves]
  show ?thesis
    by (intro conjI recorded_rules_pop_push en_passant_board_ordered
          t [THEN conjunct1] t [THEN conjunct2, THEN conjunct1]
          t [THEN conjunct2, THEN conjunct2, THEN conjunct1]
          t [THEN conjunct2, THEN conjunct2, THEN conjunct2])
qed

theorem single_move_witness:
  "legal_moves recorded_rules single_move_board = [Move 7 15 None]
   \<and> get_best_move_fast recorded_rules 3 (\<lambda>n. real n)
        \<lparr>board = single_move_board, nodes_searched = 0, clock_reads = 0\<rparr> 2
       = (Inr (Some (Move 7 15 None)),
          \<lparr>board = single_move_board, nodes_searched = 0, clock_reads = 1\<rparr>)"
proof -
  let ?s = "\<lparr>board = single_move_board, nodes_searched = 0, clock_reads = 0\<rparr>"
  have h: "legal_moves recorded_rules (board ?s) = [Move 7 15 None]"
    by (simp add: single_move_board_legal)
  have "get_best_move_fast recorded_rules 3 (\<lambda>n. real n) ?s 2
       = (Inr (Some (Move 7 15 None)), ?s\<lparr>clock_reads := clock_reads ?s + 1\<rparr>)"
    by (rule single_move [OF h])
  then have c: "get_best_move_fast recorded_rules 3 (\<lambda>n. real n) ?s 2
       = (Inr (Some (Move 7 15 None)),
          \<lparr>board = single_move_board, nodes_searched = 0, clock_reads = 1\<rparr>)"
    by simp
  have h': "legal_moves recorded_rules single_move_board = [Move 7 15 None]"
    by (simp add: single_move_board_legal)
  show ?thesis by (rule conjI [OF h' c])
qed

theorem get_best_move_fast_legal_witness:
  "legal_moves recorded_rules stalemate_board = []
   \<and> fst (get_best_move_fast recorded_rules 3 (\<lambda>n. real n)
        \<lparr>board = stalemate_board, nodes_searched = 0, clock_reads = 0\<rparr> 2) = Inr None
   \<and> legal_moves recorded_rules start_board \<noteq> []
   \<and> (\<exists>m\<in>set (legal_moves recorded_rules start_board).
        fst (get_best_move_fast recorded_rules 3 (\<lambda>n. real n)
          \<lparr>board = start_board, nodes_searched = 0, clock_reads = 0\<rparr> 0) = Inr (Some m))"
proof -
  let ?s = "\<lparr>board = stalemate_board, nodes_searched = 0, clock_reads = 0\<rparr>"
  let ?t = "\<lparr>board = start_board, nodes_searched = 0, clock_reads = 0\<rparr>"
  have h1: "legal_moves recorded_rules stalemate_board = []"
    by (simp add: stalemate_board_legal)
  have h2: "legal_moves recorded_rules start_board \<noteq> []"
    by (simp add: start_board_legal white_first_moves_def)
  have b1: "board ?s = stalemate_board" and b2: "board ?t = start_board" by simp_all
  have c1: "fst (get_best_move_fast recorded_rules 3 (\<lambda>n. real n) ?s 2) = Inr None"
    using get_best_move_fast_legal [of recorded_rules 3 "\<lambda>n. real n" ?s 2, THEN conjunct1] h1
    by (simp only: b1 simp_thms)
  have c2: "\<exists>m\<in>set (legal_moves recorded_rules start_board).
        fst (get_best_move_fast recorded_rules 3 (\<lambda>n. real n) ?t 0) = Inr (Some m)"
    using get_best_move_fast_legal [of recorded_rules 3 "\<lambda>n. real n" ?t 0, THEN conjunct2] h2
    by (simp only: b2 simp_thms)
  show ?thesis by (intro conjI h1 c1 h2 c2)
qed

theorem depth_zero_is_static_witness:
  "is_game_over recorded_rules fools_mate_board
   \<and> is_checkmate recorded_rules fools_mate_board
   \<and> fst (minimax_alpha_beta recorded_rules
        \<lparr>board = fools_mate_board, nodes_searched = 0, clock_reads = 0\<rparr> 0 NegInf PosInf False)
       = Fin (- 100000)
   \<and> fst (minimax_alpha_beta recorded_rules
        \<lparr>board = fools_mate_board, nodes_searched = 0, clock_reads = 0\<rparr> (Suc 0) NegInf PosInf False)
       = Fin 100000"
proof -
  let ?s = "\<lparr>board = fools_mate_board, nodes_searched = 0, clock_reads = 0\<rparr>"
  have g: "is_game_over recorded_rules fools_mate_board"
    and m: "is_checkmate recorded_rules fools_mate_board"
    and e: "evaluate_board recorded_rules fools_mate_board = Fin (- 100000)"
    by code_simp+
  have b: "board ?s = fools_mate_board" by simp
  note t = depth_zero_is_static [of recorded_rules ?s NegInf PosInf False 0]
  have c0: "fst (minimax_alpha_beta recorded_rules ?s 0 NegInf PosInf False) = Fin (- 100000)"
    using t [THEN conjunct1] by (simp only: b e)
  have c1: "fst (minimax_alpha_beta recorded_rules ?s (Suc 0) NegInf PosInf False) = Fin 100000"
    using t [THEN conjunct2] g m by (simp only: b simp_thms if_True if_False)
  show ?thesis by (intro conjI g m c0 c1)
qed

theorem evaluate_board_antisymmetric_witness:
  "color_mirrored recorded_rules en_passant_board mirrored_en_passant_board
   \<and> (evaluate_board recorded_rules en_passant_board
         = Fin (static_part recorded_rules en_passant_board
                + mobility_contribution recorded_rules en_passant_board)
      \<and> evaluate_board recorded_rules mirrored_en_passant_board
         = Fin (static_part recorded_rules mirrored_en_passant_board
                + mobility_contribution recorded_rules mirrored_en_passant_board)
      \<and> static_part recorded_rules mirrored_en_passant_board
         = - static_part recorded_rules en_passant_board)
   \<and> static_part recorded_rules en_passant_board = - (31 / 20)
   \<and> mobility_contribution recorded_rules en_passant_board = 2 / 5
   \<and> mobility_contribution recorded_rules mirrored_en_passant_board = - (2 / 5)"
proof -
  have h: "color_mirrored recorded_rules en_passant_board mirrored_en_passant_board"
    by code_simp
  have s: "static_part recorded_rules en_passant_board = - (31 / 20)"
    by code_simp
  have m: "mobility_contribution recorded_rules en_passant_board = 2 / 5"
    by code_simp
  have m': "mobility_contribution recorded_rules mirrored_en_passant_board = - (2 / 5)"
    by code_simp
  show ?thesis
    by (intro conjI h s m m' evaluate_board_antisymmetric [OF h, THEN conjunct1]
          evaluate_board_antisymmetric [OF h, THEN conjunct2, THEN conjunct1]
          evaluate_board_antisymmetric [OF h, THEN conjunct2, THEN conjunct2])
qed

end
